theory Spec2Isabelle
  imports Main "HOL-Library.Multiset"
begin

section \<open>Strings\<close>

text \<open>
  JavaScript strings are modelled as \<^typ>\<open>string\<close>. \<open>toLowerCase\<close> maps the ASCII capitals
  (the platform names of the schemas are ASCII); \<open>str_includes\<close> is the substring test of
  \<open>String.prototype.includes\<close>.
\<close>

definition lowerChar :: "char \<Rightarrow> char" where
  "lowerChar c =
     (case map_of (zip ''ABCDEFGHIJKLMNOPQRSTUVWXYZ'' ''abcdefghijklmnopqrstuvwxyz'') c of
        Some d \<Rightarrow> d
      | None \<Rightarrow> c)"

definition toLowerCase :: "string \<Rightarrow> string" where
  "toLowerCase s = map lowerChar s"

fun startsWith :: "string \<Rightarrow> string \<Rightarrow> bool" where
  "startsWith _ [] = True"
| "startsWith [] (_ # _) = False"
| "startsWith (c # cs) (d # ds) = (c = d \<and> startsWith cs ds)"

fun str_includes :: "string \<Rightarrow> string \<Rightarrow> bool" where
  "str_includes [] sub = (sub = [])"
| "str_includes (c # cs) sub = (startsWith (c # cs) sub \<or> str_includes cs sub)"

text \<open>JavaScript truthiness of an optional string: defined and not empty.\<close>

definition truthy :: "string option \<Rightarrow> bool" where
  "truthy v = (case v of None \<Rightarrow> False | Some s \<Rightarrow> s \<noteq> [])"

section \<open>Data model (models/Post.model.js, models/User.model.js)\<close>

type_synonym objectId = nat

datatype status = Draft | Scheduled | Published | Failed

text \<open>
  A post document. \<open>platforms\<close> is optional because the scheduler reads
  \<open>post.platforms || [post.platform]\<close>; dates are milliseconds since the epoch.
  The like and comment counters, which no modelled operation reads, are left out.
\<close>

record post =
  p_id :: objectId
  p_user :: objectId
  p_content :: string
  p_mediaUrls :: "string list"
  p_platforms :: "string list option"
  p_platform :: string
  p_scheduledDate :: "int option"
  p_status :: status

record connectedAccount =
  acc_platform :: string
  acc_accountId :: string
  acc_accountName :: string
  acc_profileImage :: "string option"
  acc_accessToken :: string
  acc_refreshToken :: "string option"
  acc_expiresAt :: "int option"
  acc_isActive :: bool
  acc_connectedAt :: "int option"
  acc_pageId :: "string option"
  acc_pageAccessToken :: "string option"
  acc_businessAccountId :: "string option"

record user =
  u_id :: objectId
  u_firebaseUid :: "string option"
  u_connectedAccounts :: "connectedAccount list"

section \<open>Platform services and the stores\<close>

text \<open>What \<open>facebookService.getUserPages\<close> returns for one page (the fields the callers read).\<close>

record page =
  pg_pageId :: string
  pg_pageAccessToken :: string
  pg_tasks :: "string list"

text \<open>
  The object a publish call returns: \<open>{ success: true, postId | mediaId | pinId, platform }\<close>.
\<close>

record postResult =
  pr_success :: bool
  pr_id :: string
  pr_platform :: string

text \<open>What \<open>completeOAuthFlow\<close> of a platform service returns (the fields that are saved).\<close>

record accountData =
  ad_platform :: string
  ad_accountId :: "string option"
  ad_accountName :: "string option"
  ad_username :: "string option"
  ad_profileImage :: "string option"
  ad_accessToken :: "string option"
  ad_refreshToken :: "string option"
  ad_expiresAt :: "int option"
  ad_connectedAt :: "int option"
  ad_pages :: "page list"
  ad_pageAccessToken :: "string option"
  ad_igId :: "string option"

text \<open>
  The remote calls are parameters of the model: each takes the arguments the code passes
  and either throws (\<open>Inl\<close> the message) or returns. \<open>PINTEREST_BOARD_ID\<close> is the
  environment variable of that name; \<open>completeOAuthFlow\<close> takes the platform whose service
  is called and the authorization code; \<open>decodeState\<close> gives the \<open>userId\<close> of a state
  parameter (\<open>None\<close> when it throws; a state that carries no \<open>userId\<close> gives an
  identifier that no user has); \<open>firestoreEnabled\<close> is
  \<open>socialConfig.storage === 'firestore' && firestoreService.isAvailable()\<close>.
\<close>

record env =
  getUserPages :: "string \<Rightarrow> string + page list"
  postToPage :: "string \<Rightarrow> string \<Rightarrow> string \<Rightarrow> string option \<Rightarrow> string + postResult"
  publishVideo :: "string \<Rightarrow> string \<Rightarrow> string \<Rightarrow> string \<Rightarrow> string + postResult"
  publishPhoto :: "string \<Rightarrow> string \<Rightarrow> string option \<Rightarrow> string \<Rightarrow> string + postResult"
  createPin :: "string \<Rightarrow> string \<Rightarrow> string \<Rightarrow> string \<Rightarrow> string option \<Rightarrow> string + postResult"
  PINTEREST_BOARD_ID :: "string option"
  completeOAuthFlow :: "string \<Rightarrow> string \<Rightarrow> string + accountData"
  decodeState :: "string \<Rightarrow> objectId option"
  firestoreEnabled :: bool

text \<open>The remote calls made, in order, with their arguments.\<close>

datatype call =
    GetUserPages string
  | PostToPage string string string "string option"
  | PublishVideo string string string string
  | PublishPhoto string string "string option" string
  | CreatePin string string string string "string option"
  | CompleteOAuthFlow string string
  | FirestoreSave string string

text \<open>
  The state outside one function call: the two MongoDB collections in the order the
  database returns their documents, the remote calls made so far, the three
  \<open>global.processed...Codes\<close> sets (undefined until first used) with the pending
  \<open>setTimeout\<close> callbacks (due time, platform, code), and \<open>w_faults\<close>: whether each of
  the coming database operations throws (an exhausted list means none does).
\<close>

record world =
  w_posts :: "post list"
  w_users :: "user list"
  w_faults :: "bool list"
  w_calls :: "call list"
  w_processedCodes :: "string \<Rightarrow> string set option"
  w_timers :: "(int \<times> string \<times> string) list"

datatype 'a res = Ok 'a | Throw string

definition dbCall :: "world \<Rightarrow> bool \<times> world" where
  "dbCall w = (case w_faults w of [] \<Rightarrow> (False, w) | f # fs \<Rightarrow> (f, w\<lparr>w_faults := fs\<rparr>))"

definition User_findById :: "objectId \<Rightarrow> world \<Rightarrow> user option res \<times> world" where
  "User_findById uid w =
     (case dbCall w of
        (True, w') \<Rightarrow> (Throw ''MongoError'', w')
      | (False, w') \<Rightarrow> (Ok (find (\<lambda>u. u_id u = uid) (w_users w')), w'))"

text \<open>
  \<open>post.save()\<close> after \<open>post.status = st\<close>: the only modified path is \<open>status\<close>, so the
  stored document of that \<open>_id\<close> gets the new status and nothing else changes.
\<close>

definition Post_save :: "post \<Rightarrow> status \<Rightarrow> world \<Rightarrow> unit res \<times> world" where
  "Post_save p st w =
     (case dbCall w of
        (True, w') \<Rightarrow> (Throw ''MongoError'', w')
      | (False, w') \<Rightarrow>
          (Ok (), w'\<lparr>w_posts := map (\<lambda>q. if p_id q = p_id p then q\<lparr>p_status := st\<rparr> else q)
                                     (w_posts w')\<rparr>))"

section \<open>services/scheduler.service.js\<close>

text \<open>The entries pushed on \<open>results\<close> and \<open>errors\<close>.\<close>

record resultEntry =
  r_platform :: string
  r_success :: bool
  r_spread :: "postResult option"

record errorEntry =
  e_platform :: string
  e_error :: string

text \<open>
  \<open>{ platform: platformName, success: true, ...postResult }\<close>: the spread comes last, so
  the keys of \<open>postResult\<close> win where it has them.
\<close>

definition entry_platform :: "resultEntry \<Rightarrow> string" where
  "entry_platform r = (case r_spread r of None \<Rightarrow> r_platform r | Some pr \<Rightarrow> pr_platform pr)"

definition mediaUrl_of :: "post \<Rightarrow> string option" where
  "mediaUrl_of p = (case p_mediaUrls p of [] \<Rightarrow> None | u # _ \<Rightarrow> Some u)"

definition isVideo :: "string option \<Rightarrow> bool" where
  "isVideo mediaUrl =
     (case mediaUrl of
        None \<Rightarrow> False
      | Some u \<Rightarrow> u \<noteq> [] \<and> (str_includes u ''.mp4'' \<or> str_includes u ''.mov'' \<or> str_includes u ''.avi''))"

definition isVideoForPinterest :: "string option \<Rightarrow> bool" where
  "isVideoForPinterest mediaUrl =
     (case mediaUrl of
        None \<Rightarrow> False
      | Some u \<Rightarrow> u \<noteq> [] \<and> (str_includes u ''.mp4'' \<or> str_includes u ''.mov'' \<or> str_includes u ''.avi''
                            \<or> str_includes u ''video''))"

text \<open>
  The body of the inner \<open>try\<close> (lines 47-133): the \<open>switch\<close> on the lower-cased platform
  name. The result is the thrown message or \<open>postResult\<close> (undefined when no \<open>case\<close>
  matches: the \<open>switch\<close> of the scheduler has no \<open>default\<close>), with the remote calls made.
\<close>

definition publishFacebook :: "env \<Rightarrow> connectedAccount \<Rightarrow> post \<Rightarrow> (string + postResult option) \<times> call list" where
  "publishFacebook e ca p =
     (let c1 = GetUserPages (acc_accessToken ca) in
      case getUserPages e (acc_accessToken ca) of
        Inl msg \<Rightarrow> (Inl msg, [c1])
      | Inr [] \<Rightarrow> (Inl ''No Facebook pages available'', [c1])
      | Inr (p0 # ps) \<Rightarrow>
          (let pg = (case find (\<lambda>g. ''CREATE_CONTENT'' \<in> set (pg_tasks g)) (p0 # ps) of
                       Some g \<Rightarrow> g | None \<Rightarrow> p0);
               c2 = PostToPage (pg_pageAccessToken pg) (pg_pageId pg) (p_content p) (mediaUrl_of p)
           in case postToPage e (pg_pageAccessToken pg) (pg_pageId pg) (p_content p) (mediaUrl_of p) of
                Inl msg \<Rightarrow> (Inl msg, [c1, c2])
              | Inr r \<Rightarrow> (Inr (Some r), [c1, c2])))"

definition publishInstagram :: "env \<Rightarrow> connectedAccount \<Rightarrow> post \<Rightarrow> (string + postResult option) \<times> call list" where
  "publishInstagram e ca p =
     (case acc_businessAccountId ca of
        None \<Rightarrow> (Inl ''Instagram Business account not linked'', [])
      | Some igUserId \<Rightarrow>
          if igUserId = [] then (Inl ''Instagram Business account not linked'', [])
          else
            (let accessToken = (if truthy (acc_pageAccessToken ca)
                                then the (acc_pageAccessToken ca) else acc_accessToken ca)
             in case mediaUrl_of p of
                  Some u \<Rightarrow>
                    if isVideo (Some u) then
                      (case publishVideo e igUserId accessToken u (p_content p) of
                         Inl msg \<Rightarrow> (Inl msg, [PublishVideo igUserId accessToken u (p_content p)])
                       | Inr r \<Rightarrow> (Inr (Some r), [PublishVideo igUserId accessToken u (p_content p)]))
                    else
                      (case publishPhoto e igUserId accessToken (Some u) (p_content p) of
                         Inl msg \<Rightarrow> (Inl msg, [PublishPhoto igUserId accessToken (Some u) (p_content p)])
                       | Inr r \<Rightarrow> (Inr (Some r), [PublishPhoto igUserId accessToken (Some u) (p_content p)]))
                | None \<Rightarrow>
                    (case publishPhoto e igUserId accessToken None (p_content p) of
                       Inl msg \<Rightarrow> (Inl msg, [PublishPhoto igUserId accessToken None (p_content p)])
                     | Inr r \<Rightarrow> (Inr (Some r), [PublishPhoto igUserId accessToken None (p_content p)]))))"

definition publishPinterest :: "env \<Rightarrow> connectedAccount \<Rightarrow> post \<Rightarrow> (string + postResult option) \<times> call list" where
  "publishPinterest e ca p =
     (if isVideoForPinterest (mediaUrl_of p)
      then (Inl ''Pinterest only supports image pins. Videos are not supported.'', [])
      else if \<not> truthy (PINTEREST_BOARD_ID e)
      then (Inl ''PINTEREST_BOARD_ID not configured in environment variables'', [])
      else
        (let boardId = the (PINTEREST_BOARD_ID e);
             c = CreatePin (acc_accessToken ca) boardId (take 100 (p_content p)) (p_content p) (mediaUrl_of p)
         in case createPin e (acc_accessToken ca) boardId (take 100 (p_content p)) (p_content p) (mediaUrl_of p) of
              Inl msg \<Rightarrow> (Inl msg, [c])
            | Inr r \<Rightarrow> (Inr (Some r), [c])))"

definition publishTo :: "env \<Rightarrow> connectedAccount \<Rightarrow> post \<Rightarrow> string \<Rightarrow> (string + postResult option) \<times> call list" where
  "publishTo e ca p platformName =
     (if toLowerCase platformName = ''facebook'' then publishFacebook e ca p
      else if toLowerCase platformName = ''instagram'' then publishInstagram e ca p
      else if toLowerCase platformName = ''pinterest'' then publishPinterest e ca p
      else (Inr None, []))"

text \<open>
  The \<open>for\<close> loop over the platforms (lines 32-148), threading \<open>results\<close>, \<open>errors\<close> and
  the remote calls made.
\<close>

fun publishLoop :: "env \<Rightarrow> user \<Rightarrow> post \<Rightarrow> string list
    \<Rightarrow> resultEntry list \<times> errorEntry list \<times> call list
    \<Rightarrow> resultEntry list \<times> errorEntry list \<times> call list" where
  "publishLoop e u p [] acc = acc"
| "publishLoop e u p (platformName # rest) (results, errors, calls) =
     (if platformName = ''all'' then publishLoop e u p rest (results, errors, calls)
      else
        case find (\<lambda>acc. toLowerCase (acc_platform acc) = toLowerCase platformName \<and> acc_isActive acc)
                  (u_connectedAccounts u) of
          None \<Rightarrow>
            publishLoop e u p rest
              (results,
               errors @ [\<lparr>e_platform = platformName, e_error = ''Account not connected or inactive''\<rparr>],
               calls)
        | Some connectedAccount \<Rightarrow>
            (case publishTo e connectedAccount p platformName of
               (Inr postResult, cs) \<Rightarrow>
                 publishLoop e u p rest
                   (results @ [\<lparr>r_platform = platformName, r_success = True, r_spread = postResult\<rparr>],
                    errors, calls @ cs)
             | (Inl msg, cs) \<Rightarrow>
                 publishLoop e u p rest
                   (results, errors @ [\<lparr>e_platform = platformName, e_error = msg\<rparr>], calls @ cs)))"

text \<open>
  How \<open>processScheduledPost\<close> ended: the early return of line 24, the normal end after
  the save of line 152, the \<open>catch\<close> of lines 156-161 with its save succeeding, or that
  save throwing too (the promise is rejected).
\<close>

datatype exit = UserNotFound | Completed | MarkedFailed | Rejected

record run =
  run_world :: world
  run_results :: "resultEntry list"
  run_errors :: "errorEntry list"
  run_exit :: exit

definition catchHandler :: "post \<Rightarrow> resultEntry list \<Rightarrow> errorEntry list \<Rightarrow> world \<Rightarrow> run" where
  "catchHandler p results errors w =
     (case Post_save p Failed w of
        (Ok _, w') \<Rightarrow> \<lparr>run_world = w', run_results = results, run_errors = errors, run_exit = MarkedFailed\<rparr>
      | (Throw _, w') \<Rightarrow> \<lparr>run_world = w', run_results = results, run_errors = errors, run_exit = Rejected\<rparr>)"

definition platformsOf :: "post \<Rightarrow> string list" where
  "platformsOf p = (case p_platforms p of Some ps \<Rightarrow> ps | None \<Rightarrow> [p_platform p])"

definition processScheduledPost :: "env \<Rightarrow> post \<Rightarrow> world \<Rightarrow> run" where
  "processScheduledPost e p w =
     (case User_findById (p_user p) w of
        (Throw _, w1) \<Rightarrow> catchHandler p [] [] w1
      | (Ok None, w1) \<Rightarrow>
          \<lparr>run_world = w1, run_results = [], run_errors = [], run_exit = UserNotFound\<rparr>
      | (Ok (Some u), w1) \<Rightarrow>
          (case publishLoop e u p (platformsOf p) ([], [], []) of
             (results, errors, calls) \<Rightarrow>
               (let w2 = w1\<lparr>w_calls := w_calls w1 @ calls\<rparr> in
                case Post_save p (if results \<noteq> [] then Published else Failed) w2 of
                  (Ok _, w3) \<Rightarrow>
                    \<lparr>run_world = w3, run_results = results, run_errors = errors, run_exit = Completed\<rparr>
                | (Throw _, w3) \<Rightarrow> catchHandler p results errors w3)))"

text \<open>
  The query of \<open>checkScheduledPosts\<close> (lines 172-175):
  \<open>Post.find({status: 'scheduled', scheduledDate: {$lte: now}}).limit(10)\<close>. It has no
  \<open>sort\<close>, so the documents come in the order of the collection.
\<close>

definition isDue :: "int \<Rightarrow> post \<Rightarrow> bool" where
  "isDue now p = (p_status p = Scheduled \<and> (case p_scheduledDate p of None \<Rightarrow> False | Some d \<Rightarrow> d \<le> now))"

definition Post_find :: "int \<Rightarrow> world \<Rightarrow> post list res \<times> world" where
  "Post_find now w =
     (case dbCall w of
        (True, w') \<Rightarrow> (Throw ''MongoError'', w')
      | (False, w') \<Rightarrow> (Ok (take 10 (filter (isDue now) (w_posts w'))), w'))"

text \<open>The loop of lines 181-183; a rejected \<open>processScheduledPost\<close> ends it (outer \<open>catch\<close>).\<close>

fun processEach :: "env \<Rightarrow> post list \<Rightarrow> world \<Rightarrow> world" where
  "processEach e [] w = w"
| "processEach e (p # ps) w =
     (let r = processScheduledPost e p w in
      if run_exit r = Rejected then run_world r else processEach e ps (run_world r))"

definition checkScheduledPosts :: "env \<Rightarrow> int \<Rightarrow> world \<Rightarrow> world" where
  "checkScheduledPosts e now w =
     (case Post_find now w of
        (Throw _, w1) \<Rightarrow> w1
      | (Ok scheduledPosts, w1) \<Rightarrow> processEach e scheduledPosts w1)"

section \<open>controllers/social.controller.js\<close>

text \<open>
  Validation of a connected account by the schema of \<open>User.model\<close>: the platform is one of
  the enumeration and the required strings are not empty.
\<close>

definition platformEnum :: "string list" where
  "platformEnum = [''facebook'', ''instagram'', ''pinterest'']"

definition validAccount :: "connectedAccount \<Rightarrow> bool" where
  "validAccount a =
     (acc_platform a \<in> set platformEnum \<and> acc_accountId a \<noteq> [] \<and> acc_accountName a \<noteq> []
      \<and> acc_accessToken a \<noteq> [])"

text \<open>
  \<open>user.save()\<close> after \<open>user.connectedAccounts\<close> was replaced: the document is validated,
  then the stored document of that \<open>_id\<close> gets the new list.
\<close>

definition User_save :: "user \<Rightarrow> world \<Rightarrow> unit res \<times> world" where
  "User_save u w =
     (if \<not> list_all validAccount (u_connectedAccounts u) then (Throw ''ValidationError'', w)
      else
        case dbCall w of
          (True, w') \<Rightarrow> (Throw ''MongoError'', w')
        | (False, w') \<Rightarrow>
            (Ok (), w'\<lparr>w_users := map (\<lambda>v. if u_id v = u_id u
                                             then v\<lparr>u_connectedAccounts := u_connectedAccounts u\<rparr>
                                             else v) (w_users w')\<rparr>))"

text \<open>
  The object pushed by \<open>saveAccountToStorage\<close> (lines 62-81). A required string that is
  undefined is stored as the empty string here, which validation rejects like undefined.
  The \<open>metadata\<close> map, which no modelled operation reads, is left out.
\<close>

definition orEmpty :: "string option \<Rightarrow> string" where
  "orEmpty v = (case v of None \<Rightarrow> [] | Some s \<Rightarrow> s)"

definition newAccount :: "accountData \<Rightarrow> connectedAccount" where
  "newAccount ad =
     \<lparr>acc_platform = ad_platform ad,
      acc_accountId = orEmpty (ad_accountId ad),
      acc_accountName = orEmpty (ad_accountName ad),
      acc_profileImage = ad_profileImage ad,
      acc_accessToken = orEmpty (ad_accessToken ad),
      acc_refreshToken = ad_refreshToken ad,
      acc_expiresAt = ad_expiresAt ad,
      acc_isActive = True,
      acc_connectedAt = ad_connectedAt ad,
      acc_pageId = (case ad_pages ad of [] \<Rightarrow> None | g # _ \<Rightarrow> Some (pg_pageId g)),
      acc_pageAccessToken =
        (case ad_pages ad of
           [] \<Rightarrow> ad_pageAccessToken ad
         | g # _ \<Rightarrow> if pg_pageAccessToken g \<noteq> [] then Some (pg_pageAccessToken g)
                    else ad_pageAccessToken ad),
      acc_businessAccountId = ad_igId ad\<rparr>"

definition saveAccountToStorage ::
    "env \<Rightarrow> objectId \<Rightarrow> string \<Rightarrow> accountData \<Rightarrow> string option \<Rightarrow> world \<Rightarrow> unit res \<times> world" where
  "saveAccountToStorage e userId platform ad firebaseUid w =
     (case User_findById userId w of
        (Throw msg, w1) \<Rightarrow> (Throw msg, w1)
      | (Ok None, w1) \<Rightarrow> (Throw ''User not found'', w1)
      | (Ok (Some u), w1) \<Rightarrow>
          (let u' = u\<lparr>u_connectedAccounts :=
                        filter (\<lambda>acc. acc_platform acc \<noteq> platform) (u_connectedAccounts u)
                        @ [newAccount ad]\<rparr>
           in case User_save u' w1 of
                (Throw msg, w2) \<Rightarrow> (Throw msg, w2)
              | (Ok _, w2) \<Rightarrow>
                  if firestoreEnabled e \<and> truthy firebaseUid \<and> platform \<in> set platformEnum
                  then (Ok (), w2\<lparr>w_calls := w_calls w2 @ [FirestoreSave (the firebaseUid) platform]\<rparr>)
                  else (Ok (), w2)))"

text \<open>The query string and the header an OAuth callback reads, and what it answers.\<close>

record request =
  q_code :: "string option"
  q_state :: "string option"
  q_error :: "string option"
  q_error_description :: "string option"
  q_userAgent :: "string option"

datatype response =
    ErrorHTML nat string string
  | SuccessHTML string string
  | SuccessJSON string string "string option"
  | ErrorJSON nat string string

definition isMobile :: "request \<Rightarrow> bool" where
  "isMobile r = (let userAgent = orEmpty (q_userAgent r)
                 in str_includes userAgent ''Dart'' \<or> str_includes userAgent ''Flutter'')"

text \<open>A template literal prints an undefined value as \<open>undefined\<close>.\<close>

definition shown :: "string option \<Rightarrow> string" where
  "shown v = (case v of None \<Rightarrow> ''undefined'' | Some s \<Rightarrow> s)"

definition successResponse :: "string \<Rightarrow> request \<Rightarrow> accountData \<Rightarrow> response" where
  "successResponse platform r ad =
     (if platform = ''pinterest'' then SuccessHTML platform (shown (ad_accountName ad))
      else
        (let accountName = (if platform = ''instagram'' then ''@'' @ shown (ad_username ad)
                            else shown (ad_accountName ad))
         in if isMobile r then SuccessJSON platform accountName (ad_accountId ad)
            else SuccessHTML platform accountName))"

definition failureResponse :: "string \<Rightarrow> request \<Rightarrow> string \<Rightarrow> response" where
  "failureResponse platform r msg =
     (if platform \<noteq> ''pinterest'' \<and> isMobile r then ErrorJSON 500 platform msg
      else ErrorHTML 500 platform msg)"

definition hasCode :: "string \<Rightarrow> string \<Rightarrow> world \<Rightarrow> bool" where
  "hasCode platform code w =
     (case w_processedCodes w platform of None \<Rightarrow> False | Some S \<Rightarrow> code \<in> S)"

definition addCode :: "string \<Rightarrow> string \<Rightarrow> world \<Rightarrow> world" where
  "addCode platform code w =
     w\<lparr>w_processedCodes := (w_processedCodes w)
          (platform := Some (case w_processedCodes w platform of
                               None \<Rightarrow> {code}
                             | Some S \<Rightarrow> insert code S))\<rparr>"

definition deleteCode :: "string \<Rightarrow> string \<Rightarrow> world \<Rightarrow> world" where
  "deleteCode platform code w =
     (case w_processedCodes w platform of
        None \<Rightarrow> w
      | Some S \<Rightarrow> w\<lparr>w_processedCodes := (w_processedCodes w)(platform := Some (S - {code}))\<rparr>)"

definition retention :: int where
  "retention = 5 * 60 * 1000"

definition setTimeout :: "int \<Rightarrow> string \<Rightarrow> string \<Rightarrow> world \<Rightarrow> world" where
  "setTimeout due platform code w = w\<lparr>w_timers := w_timers w @ [(due, platform, code)]\<rparr>"

text \<open>
  The three callbacks (\<open>facebookCallback\<close>, \<open>instagramCallback\<close>, \<open>pinterestCallback\<close>) are
  the same text up to the platform's name, its set of processed codes, its service and
  the answer's format; \<open>oauthCallback\<close> is that text, run at time \<open>now\<close>.
\<close>

definition linkAccount :: "env \<Rightarrow> string \<Rightarrow> request \<Rightarrow> objectId \<Rightarrow> string \<Rightarrow> world \<Rightarrow> response \<times> world" where
  "linkAccount e platform r userId code w =
     (let w1 = w\<lparr>w_calls := w_calls w @ [CompleteOAuthFlow platform code]\<rparr> in
      case completeOAuthFlow e platform code of
        Inl msg \<Rightarrow> (failureResponse platform r msg, w1)
      | Inr ad \<Rightarrow>
          (case User_findById userId w1 of
             (Throw msg, w2) \<Rightarrow> (failureResponse platform r msg, w2)
           | (Ok found, w2) \<Rightarrow>
               (let firebaseUid = (case found of None \<Rightarrow> None | Some u \<Rightarrow> u_firebaseUid u) in
                case saveAccountToStorage e userId platform ad firebaseUid w2 of
                  (Throw msg, w3) \<Rightarrow> (failureResponse platform r msg, w3)
                | (Ok _, w3) \<Rightarrow> (successResponse platform r ad, w3))))"

definition oauthCallback :: "string \<Rightarrow> env \<Rightarrow> int \<Rightarrow> request \<Rightarrow> world \<Rightarrow> response \<times> world" where
  "oauthCallback platform e now r w =
     (if truthy (q_error r)
      then (ErrorHTML 400 platform
              (if truthy (q_error_description r) then the (q_error_description r) else the (q_error r)), w)
      else if \<not> truthy (q_code r) then (ErrorHTML 400 platform ''Authorization code not received'', w)
      else if \<not> truthy (q_state r) then (ErrorHTML 400 platform ''State parameter missing'', w)
      else
        case decodeState e (the (q_state r)) of
          None \<Rightarrow> (failureResponse platform r ''Invalid state parameter'', w)
        | Some userId \<Rightarrow>
            (let code = the (q_code r) in
             if hasCode platform code w then (SuccessHTML platform ''Already connected'', w)
             else linkAccount e platform r userId code
                    (setTimeout (now + retention) platform code (addCode platform code w))))"

definition facebookCallback :: "env \<Rightarrow> int \<Rightarrow> request \<Rightarrow> world \<Rightarrow> response \<times> world" where
  "facebookCallback = oauthCallback ''facebook''"

definition instagramCallback :: "env \<Rightarrow> int \<Rightarrow> request \<Rightarrow> world \<Rightarrow> response \<times> world" where
  "instagramCallback = oauthCallback ''instagram''"

definition pinterestCallback :: "env \<Rightarrow> int \<Rightarrow> request \<Rightarrow> world \<Rightarrow> response \<times> world" where
  "pinterestCallback = oauthCallback ''pinterest''"

text \<open>
  The event loop: the timers that are due at time \<open>now\<close> run (each deletes its code) before
  a callback that arrives at \<open>now\<close> is handled.
\<close>

definition fireTimers :: "int \<Rightarrow> world \<Rightarrow> world" where
  "fireTimers now w =
     (fold (\<lambda>(due, platform, code) v. deleteCode platform code v)
           (filter (\<lambda>(due, platform, code). due \<le> now) (w_timers w)) w)
       \<lparr>w_timers := filter (\<lambda>(due, platform, code). \<not> due \<le> now) (w_timers w)\<rparr>"

definition deliver :: "env \<Rightarrow> string \<Rightarrow> int \<Rightarrow> request \<Rightarrow> world \<Rightarrow> response \<times> world" where
  "deliver e platform now r w = oauthCallback platform e now r (fireTimers now w)"

fun deliverAll :: "env \<Rightarrow> (int \<times> string \<times> request) list \<Rightarrow> world \<Rightarrow> world" where
  "deliverAll e [] w = w"
| "deliverAll e ((now, platform, r) # evs) w = deliverAll e evs (snd (deliver e platform now r w))"

text \<open>
  A callback runs without interruption as far as its first \<open>await\<close> (line 466 for
  Facebook): by then it has added the code, set the timer and called \<open>completeOAuthFlow\<close>.
  The callbacks that arrive while it waits run before it goes on. \<open>awaitFlow\<close> is the call
  that is made where the callback stops, \<open>resumeFlow\<close> is the callback from the answer of
  the service on; \<open>linkAccount\<close> is the one after the other, with nothing in between.
\<close>

definition awaitFlow :: "string \<Rightarrow> string \<Rightarrow> world \<Rightarrow> world" where
  "awaitFlow platform code w = w\<lparr>w_calls := w_calls w @ [CompleteOAuthFlow platform code]\<rparr>"

definition resumeFlow :: "env \<Rightarrow> string \<Rightarrow> request \<Rightarrow> objectId \<Rightarrow> string \<Rightarrow> world \<Rightarrow> response \<times> world" where
  "resumeFlow e platform r userId code w1 =
     (case completeOAuthFlow e platform code of
        Inl msg \<Rightarrow> (failureResponse platform r msg, w1)
      | Inr ad \<Rightarrow>
          (case User_findById userId w1 of
             (Throw msg, w2) \<Rightarrow> (failureResponse platform r msg, w2)
           | (Ok found, w2) \<Rightarrow>
               (let firebaseUid = (case found of None \<Rightarrow> None | Some u \<Rightarrow> u_firebaseUid u) in
                case saveAccountToStorage e userId platform ad firebaseUid w2 of
                  (Throw msg, w3) \<Rightarrow> (failureResponse platform r msg, w3)
                | (Ok _, w3) \<Rightarrow> (successResponse platform r ad, w3))))"

section \<open>Observations used in the statements\<close>

text \<open>
  One pass of the loop body of \<open>processScheduledPost\<close> for a single platform name: the
  entries it pushes and the remote calls it makes.
\<close>

definition publishOne :: "env \<Rightarrow> user \<Rightarrow> post \<Rightarrow> string \<Rightarrow> resultEntry list \<times> errorEntry list \<times> call list" where
  "publishOne e u p platformName = publishLoop e u p [platformName] ([], [], [])"

definition oneResults :: "env \<Rightarrow> user \<Rightarrow> post \<Rightarrow> string \<Rightarrow> resultEntry list" where
  "oneResults e u p platformName = fst (publishOne e u p platformName)"

definition oneErrors :: "env \<Rightarrow> user \<Rightarrow> post \<Rightarrow> string \<Rightarrow> errorEntry list" where
  "oneErrors e u p platformName = fst (snd (publishOne e u p platformName))"

definition oneCalls :: "env \<Rightarrow> user \<Rightarrow> post \<Rightarrow> string \<Rightarrow> call list" where
  "oneCalls e u p platformName = snd (snd (publishOne e u p platformName))"

text \<open>The account the loop picks for a platform name (lines 35-37).\<close>

definition activeAccount :: "user \<Rightarrow> string \<Rightarrow> connectedAccount option" where
  "activeAccount u platformName =
     find (\<lambda>acc. toLowerCase (acc_platform acc) = toLowerCase platformName \<and> acc_isActive acc)
          (u_connectedAccounts u)"

text \<open>The status and the stored documents of a job, and the posts with one status replaced.\<close>

definition storedStatus :: "objectId \<Rightarrow> world \<Rightarrow> status option" where
  "storedStatus i w = map_option p_status (find (\<lambda>q. p_id q = i) (w_posts w))"

definition setStatus :: "objectId \<Rightarrow> status \<Rightarrow> post list \<Rightarrow> post list" where
  "setStatus i st ps = map (\<lambda>q. if p_id q = i then q\<lparr>p_status := st\<rparr> else q) ps"

text \<open>
  Whether the pass of the loop for one platform name ends in \<open>results.push\<close>: an active
  account is found and the \<open>switch\<close> does not throw.
\<close>

definition attemptOk :: "env \<Rightarrow> user \<Rightarrow> post \<Rightarrow> string \<Rightarrow> bool" where
  "attemptOk e u p platformName =
     (platformName \<noteq> ''all'' \<and>
      (case activeAccount u platformName of
         None \<Rightarrow> False
       | Some ca \<Rightarrow> (case fst (publishTo e ca p platformName) of Inl _ \<Rightarrow> False | Inr _ \<Rightarrow> True)))"

definition batchOf :: "post list res \<times> world \<Rightarrow> post list" where
  "batchOf x = (case fst x of Ok b \<Rightarrow> b | Throw _ \<Rightarrow> [])"

text \<open>
  \<open>initializeScheduler\<close> runs \<open>checkScheduledPosts\<close> at every minute; \<open>schedulerTicks\<close> is a
  sequence of such runs, one after the other, at the given times.
\<close>

fun schedulerTicks :: "env \<Rightarrow> int list \<Rightarrow> world \<Rightarrow> world" where
  "schedulerTicks e [] w = w"
| "schedulerTicks e (now # nows) w = schedulerTicks e nows (checkScheduledPosts e now w)"

text \<open>
  A request that gets as far as the test of the processed codes: no OAuth error, a code,
  and a state that decodes to a user.
\<close>

definition wellFormed :: "env \<Rightarrow> request \<Rightarrow> string \<Rightarrow> objectId \<Rightarrow> bool" where
  "wellFormed e r code userId =
     (\<not> truthy (q_error r) \<and> q_code r = Some code \<and> code \<noteq> [] \<and> truthy (q_state r)
      \<and> decodeState e (the (q_state r)) = Some userId)"

text \<open>
  What the callbacks keep true of the timers: the pending timers are for different
  codes, and each is for a code that is in the set of its platform. It holds when the
  process starts (no timers) and after every callback.
\<close>

definition timersInv :: "world \<Rightarrow> bool" where
  "timersInv w =
     (distinct (map snd (w_timers w))
      \<and> list_all (\<lambda>(due, platform, code). hasCode platform code w) (w_timers w))"

text \<open>A code that is recorded with its one timer due at \<open>due\<close>.\<close>

definition recorded :: "string \<Rightarrow> string \<Rightarrow> int \<Rightarrow> world \<Rightarrow> bool" where
  "recorded platform code due w =
     (hasCode platform code w \<and> (due, platform, code) \<in> set (w_timers w)
      \<and> list_all (\<lambda>x. snd x \<noteq> (platform, code) \<or> fst x = due) (w_timers w))"

section \<open>Example data\<close>

text \<open>
  Services that all succeed and services that all throw (both decode the state above
  and no other), a user with an active Facebook and an active Instagram account whose
  tokens expired at time 0, and jobs for them.
\<close>

text \<open>
  The state that \<open>generateState\<close> makes for the user of identifier 7 and Facebook at
  time 0: the base64 text of the JSON object with \<open>userId\<close>, \<open>platform\<close> and \<open>timestamp\<close>.
\<close>

definition demoState :: string where
  "demoState =
     ''eyJ1c2VySWQiOiIwMDAwMDAwMDAwMDAwMDAwMDAwMDAwMDciLCJwbGF0Zm9ybSI6ImZhY2Vib29rIiwidGltZXN0YW1wIjowfQ==''"

definition okResult :: "string \<Rightarrow> postResult" where
  "okResult platform = \<lparr>pr_success = True, pr_id = ''1001'', pr_platform = platform\<rparr>"

definition demoData :: "string \<Rightarrow> accountData" where
  "demoData platform =
     \<lparr>ad_platform = platform, ad_accountId = Some ''acct'', ad_accountName = Some ''Alice'',
      ad_username = Some ''alice'', ad_profileImage = None, ad_accessToken = Some ''fresh'',
      ad_refreshToken = None, ad_expiresAt = Some 5184000000, ad_connectedAt = Some 0,
      ad_pages = [], ad_pageAccessToken = None, ad_igId = Some ''ig1''\<rparr>"

definition envOk :: env where
  "envOk =
     \<lparr>getUserPages = (\<lambda>_. Inr [\<lparr>pg_pageId = ''pg1'', pg_pageAccessToken = ''ptok'',
                                  pg_tasks = [''CREATE_CONTENT'']\<rparr>]),
      postToPage = (\<lambda>_ _ _ _. Inr (okResult ''facebook'')),
      publishVideo = (\<lambda>_ _ _ _. Inr (okResult ''instagram'')),
      publishPhoto = (\<lambda>_ _ _ _. Inr (okResult ''instagram'')),
      createPin = (\<lambda>_ _ _ _ _. Inr (okResult ''pinterest'')),
      PINTEREST_BOARD_ID = Some ''b1'',
      completeOAuthFlow = (\<lambda>platform _. Inr (demoData platform)),
      decodeState = (\<lambda>s. if s = demoState then Some 7 else None),
      firestoreEnabled = False\<rparr>"

definition envFail :: env where
  "envFail =
     \<lparr>getUserPages = (\<lambda>_. Inl ''Failed to fetch Facebook pages''),
      postToPage = (\<lambda>_ _ _ _. Inl ''Failed to post to Facebook''),
      publishVideo = (\<lambda>_ _ _ _. Inl ''Failed to publish video''),
      publishPhoto = (\<lambda>_ _ _ _. Inl ''Failed to publish photo''),
      createPin = (\<lambda>_ _ _ _ _. Inl ''Failed to create pin''),
      PINTEREST_BOARD_ID = Some ''b1'',
      completeOAuthFlow = (\<lambda>_ _. Inl ''Failed to exchange code for token''),
      decodeState = (\<lambda>s. if s = demoState then Some 7 else None),
      firestoreEnabled = False\<rparr>"

text \<open>Facebook succeeds and Instagram throws, and the other way round.\<close>

definition envFacebookOnly :: env where
  "envFacebookOnly =
     envOk\<lparr>publishVideo := (\<lambda>_ _ _ _. Inl ''Failed to publish video''),
           publishPhoto := (\<lambda>_ _ _ _. Inl ''Failed to publish photo'')\<rparr>"

definition envInstagramOnly :: env where
  "envInstagramOnly = envOk\<lparr>getUserPages := (\<lambda>_. Inl ''Failed to fetch Facebook pages'')\<rparr>"

definition demoAccount :: "string \<Rightarrow> connectedAccount" where
  "demoAccount platform =
     \<lparr>acc_platform = platform, acc_accountId = ''acct'', acc_accountName = ''Alice'',
      acc_profileImage = None, acc_accessToken = ''tok'', acc_refreshToken = None,
      acc_expiresAt = Some 0, acc_isActive = True, acc_connectedAt = Some 0,
      acc_pageId = None, acc_pageAccessToken = None, acc_businessAccountId = Some ''ig1''\<rparr>"

definition alice :: user where
  "alice = \<lparr>u_id = 7, u_firebaseUid = Some ''uid-alice'',
            u_connectedAccounts = [demoAccount ''facebook'', demoAccount ''instagram'']\<rparr>"

definition job :: "objectId \<Rightarrow> objectId \<Rightarrow> string list \<Rightarrow> int \<Rightarrow> post" where
  "job i owner platforms due =
     \<lparr>p_id = i, p_user = owner, p_content = ''hello'', p_mediaUrls = [],
      p_platforms = Some platforms, p_platform = ''all'', p_scheduledDate = Some due,
      p_status = Scheduled\<rparr>"

definition demoWorld :: "post list \<Rightarrow> bool list \<Rightarrow> world" where
  "demoWorld posts faults =
     \<lparr>w_posts = posts, w_users = [alice], w_faults = faults, w_calls = [],
      w_processedCodes = (\<lambda>_. None), w_timers = []\<rparr>"

definition demoRequest :: "string \<Rightarrow> request" where
  "demoRequest code =
     \<lparr>q_code = Some code, q_state = Some demoState, q_error = None,
      q_error_description = None, q_userAgent = None\<rparr>"

section \<open>Facts about the stores and the publishing loop\<close>

lemma publishLoop_step:
  "publishLoop e u p (n # ps) (rs, es, cs) =
     publishLoop e u p ps (rs @ oneResults e u p n, es @ oneErrors e u p n, cs @ oneCalls e u p n)"
  by (simp add: publishOne_def oneResults_def oneErrors_def oneCalls_def
           split: option.splits prod.splits sum.splits)

lemma publishLoop_eq:
  "publishLoop e u p ps (rs, es, cs) =
     (rs @ concat (map (oneResults e u p) ps),
      es @ concat (map (oneErrors e u p) ps),
      cs @ concat (map (oneCalls e u p) ps))"
proof (induction ps arbitrary: rs es cs)
  case Nil
  show ?case by simp
next
  case (Cons n ps)
  show ?case by (simp only: publishLoop_step Cons.IH) simp
qed

lemma publishOne_entries:
  "mset (map r_platform (oneResults e u p n)) + mset (map e_platform (oneErrors e u p n))
     = (if n = ''all'' then {#} else {#n#})"
  by (simp add: publishOne_def oneResults_def oneErrors_def
           split: option.splits prod.splits sum.splits)

lemma publishLoop_platforms:
  "mset (map r_platform (concat (map (oneResults e u p) ps)))
     + mset (map e_platform (concat (map (oneErrors e u p) ps)))
   = mset (filter (\<lambda>n. n \<noteq> ''all'') ps)"
proof (induction ps)
  case Nil
  show ?case by simp
next
  case (Cons n ps)
  have "mset (map r_platform (concat (map (oneResults e u p) (n # ps))))
          + mset (map e_platform (concat (map (oneErrors e u p) (n # ps))))
        = (mset (map r_platform (oneResults e u p n)) + mset (map e_platform (oneErrors e u p n)))
          + (mset (map r_platform (concat (map (oneResults e u p) ps)))
             + mset (map e_platform (concat (map (oneErrors e u p) ps))))"
    by simp
  also have "\<dots> = (if n = ''all'' then {#} else {#n#}) + mset (filter (\<lambda>n. n \<noteq> ''all'') ps)"
    by (simp only: publishOne_entries Cons.IH)
  finally show ?case by simp
qed



lemma dbCall_fields:
  "w_posts (snd (dbCall w)) = w_posts w" "w_users (snd (dbCall w)) = w_users w"
  "w_calls (snd (dbCall w)) = w_calls w" "w_processedCodes (snd (dbCall w)) = w_processedCodes w"
  "w_timers (snd (dbCall w)) = w_timers w"
  by (simp_all add: dbCall_def split: list.splits)

lemma User_findById_cases:
  "User_findById i w = (Ok (find (\<lambda>u. u_id u = i) (w_users w)), snd (dbCall w)) \<and> \<not> fst (dbCall w)
   \<or> User_findById i w = (Throw ''MongoError'', snd (dbCall w)) \<and> fst (dbCall w)"
  using dbCall_fields(2) [of w]
  by (cases "dbCall w") (auto simp: User_findById_def split: bool.splits)

lemma Post_save_cases:
  "Post_save p st w = (Ok (), (snd (dbCall w))\<lparr>w_posts := setStatus (p_id p) st (w_posts w)\<rparr>) \<and> \<not> fst (dbCall w)
   \<or> Post_save p st w = (Throw ''MongoError'', snd (dbCall w)) \<and> fst (dbCall w)"
  using dbCall_fields(1) [of w]
  by (cases "dbCall w") (auto simp: Post_save_def setStatus_def split: bool.splits)

lemma process_found:
  assumes "User_findById (p_user p) w = (Ok (Some u), w1)"
  shows "processScheduledPost e p w =
     (case Post_save p (if concat (map (oneResults e u p) (platformsOf p)) \<noteq> [] then Published else Failed)
             (w1\<lparr>w_calls := w_calls w1 @ concat (map (oneCalls e u p) (platformsOf p))\<rparr>) of
        (Ok _, w3) \<Rightarrow> \<lparr>run_world = w3, run_results = concat (map (oneResults e u p) (platformsOf p)),
                        run_errors = concat (map (oneErrors e u p) (platformsOf p)), run_exit = Completed\<rparr>
      | (Throw _, w3) \<Rightarrow> catchHandler p (concat (map (oneResults e u p) (platformsOf p)))
                            (concat (map (oneErrors e u p) (platformsOf p))) w3)"
  by (simp add: processScheduledPost_def publishLoop_eq assms)

lemma oneResults_iff: "oneResults e u p n \<noteq> [] \<longleftrightarrow> attemptOk e u p n"
  by (simp add: oneResults_def publishOne_def attemptOk_def activeAccount_def
           split: option.splits prod.splits sum.splits)

lemma results_iff:
  "concat (map (oneResults e u p) ps) \<noteq> [] \<longleftrightarrow> (\<exists>n \<in> set ps. attemptOk e u p n)"
  by (induction ps) (auto simp: oneResults_iff)



lemma catchHandler_cases:
  "catchHandler p rs es w =
     \<lparr>run_world = (snd (dbCall w))\<lparr>w_posts := setStatus (p_id p) Failed (w_posts w)\<rparr>,
      run_results = rs, run_errors = es, run_exit = MarkedFailed\<rparr> \<and> \<not> fst (dbCall w)
   \<or> catchHandler p rs es w =
     \<lparr>run_world = snd (dbCall w), run_results = rs, run_errors = es, run_exit = Rejected\<rparr>
     \<and> fst (dbCall w)"
  using Post_save_cases [of p Failed w] by (auto simp: catchHandler_def)

lemma find_setStatus:
  "map_option p_status (find (\<lambda>q. p_id q = i) (setStatus i st ps))
     = map_option (\<lambda>_. st) (find (\<lambda>q. p_id q = i) ps)"
  by (induction ps) (auto simp: setStatus_def)

lemma storedStatus_setStatus:
  "storedStatus i (w\<lparr>w_posts := setStatus i st ps\<rparr>) = map_option (\<lambda>_. st) (find (\<lambda>q. p_id q = i) ps)"
  by (simp add: storedStatus_def find_setStatus)

text \<open>The run of a job whose owner is found, by the outcome of the two saves.\<close>

lemma process_found_cases:
  fixes e :: env and p :: post and w :: world and u :: user
  defines "st \<equiv> (if \<exists>n \<in> set (platformsOf p). attemptOk e u p n then Published else Failed)"
  defines "r \<equiv> processScheduledPost e p w"
  assumes found: "User_findById (p_user p) w = (Ok (Some u), w1)"
  shows "run_exit r = Completed \<and> w_posts (run_world r) = setStatus (p_id p) st (w_posts w)
       \<or> run_exit r = MarkedFailed \<and> w_posts (run_world r) = setStatus (p_id p) Failed (w_posts w)
       \<or> run_exit r = Rejected \<and> w_posts (run_world r) = w_posts w"
proof -
  let ?w2 = "w1\<lparr>w_calls := w_calls w1 @ concat (map (oneCalls e u p) (platformsOf p))\<rparr>"
  from found User_findById_cases [of "p_user p" w] have w1: "w1 = snd (dbCall w)" by auto
  have posts2: "w_posts ?w2 = w_posts w" by (simp add: w1 dbCall_fields)
  have st: "(if concat (map (oneResults e u p) (platformsOf p)) \<noteq> [] then Published else Failed) = st"
    by (simp only: st_def results_iff)
  note pf = process_found [OF found, of e, unfolded st, folded r_def]
  from Post_save_cases [of p st ?w2] show ?thesis
  proof (elim disjE conjE)
    assume "Post_save p st ?w2 = (Ok (), (snd (dbCall ?w2))\<lparr>w_posts := setStatus (p_id p) st (w_posts ?w2)\<rparr>)"
    with pf posts2 show ?thesis by simp
  next
    assume thr: "Post_save p st ?w2 = (Throw ''MongoError'', snd (dbCall ?w2))"
    let ?w3 = "snd (dbCall ?w2)"
    have posts3: "w_posts ?w3 = w_posts w" by (simp only: dbCall_fields posts2)
    from thr pf have r: "r = catchHandler p (concat (map (oneResults e u p) (platformsOf p)))
                            (concat (map (oneErrors e u p) (platformsOf p))) ?w3" by simp
    have "run_exit r = MarkedFailed \<and> w_posts (run_world r) = setStatus (p_id p) Failed (w_posts w)
       \<or> run_exit r = Rejected \<and> w_posts (run_world r) = w_posts w"
      unfolding r
      using catchHandler_cases [of p "concat (map (oneResults e u p) (platformsOf p))"
                                  "concat (map (oneErrors e u p) (platformsOf p))" ?w3] posts3
      by (auto simp: dbCall_fields)
    then show ?thesis by blast
  qed
qed



section \<open>Unfolding the definitions on the example data\<close>

lemmas demo_defs = demoWorld_def job_def alice_def demoAccount_def envOk_def envFail_def
  envFacebookOnly_def envInstagramOnly_def okResult_def demoData_def demoRequest_def demoState_def

lemmas run_defs = processScheduledPost_def User_findById_def Post_save_def dbCall_def
  catchHandler_def platformsOf_def publishTo_def publishFacebook_def publishInstagram_def
  publishPinterest_def toLowerCase_def lowerChar_def mediaUrl_of_def isVideo_def
  isVideoForPinterest_def truthy_def

lemmas callback_defs = deliver_def fireTimers_def oauthCallback_def linkAccount_def
  saveAccountToStorage_def User_findById_def User_save_def dbCall_def hasCode_def addCode_def
  deleteCode_def setTimeout_def retention_def truthy_def failureResponse_def successResponse_def
  isMobile_def orEmpty_def shown_def validAccount_def platformEnum_def newAccount_def Let_def

section \<open>What a run leaves in its lists and in the world\<close>

lemma catchHandler_lists:
  "run_results (catchHandler p rs es w) = rs" "run_errors (catchHandler p rs es w) = es"
  using catchHandler_cases [of p rs es w] by auto

lemma process_found_lists:
  assumes "User_findById (p_user p) w = (Ok (Some u), w1)"
  shows "run_results (processScheduledPost e p w) = concat (map (oneResults e u p) (platformsOf p))"
    and "run_errors (processScheduledPost e p w) = concat (map (oneErrors e u p) (platformsOf p))"
  by (simp_all add: process_found [OF assms] catchHandler_lists split: prod.splits res.splits)

lemma catchHandler_calls: "w_calls (run_world (catchHandler p rs es w)) = w_calls w"
  using catchHandler_cases [of p rs es w] by (auto simp: dbCall_fields)

lemma catchHandler_users: "w_users (run_world (catchHandler p rs es w)) = w_users w"
  using catchHandler_cases [of p rs es w] by (auto simp: dbCall_fields)

lemma Post_save_calls: "w_calls (snd (Post_save p st w)) = w_calls w"
  using Post_save_cases [of p st w] by (auto simp: dbCall_fields)

lemma Post_save_users: "w_users (snd (Post_save p st w)) = w_users w"
  using Post_save_cases [of p st w] by (auto simp: dbCall_fields)

lemma process_found_calls:
  assumes found: "User_findById (p_user p) w = (Ok (Some u), w1)"
  shows "w_calls (run_world (processScheduledPost e p w))
           = w_calls w @ concat (map (oneCalls e u p) (platformsOf p))"
proof -
  let ?st = "if concat (map (oneResults e u p) (platformsOf p)) \<noteq> [] then Published else Failed"
  let ?w2 = "w1\<lparr>w_calls := w_calls w1 @ concat (map (oneCalls e u p) (platformsOf p))\<rparr>"
  from found User_findById_cases [of "p_user p" w] have w1: "w1 = snd (dbCall w)" by auto
  have c2: "w_calls ?w2 = w_calls w @ concat (map (oneCalls e u p) (platformsOf p))"
    by (simp add: w1 dbCall_fields)
  obtain x w3 where sv: "Post_save p ?st ?w2 = (x, w3)" by (cases "Post_save p ?st ?w2")
  from Post_save_calls [of p ?st ?w2] sv have c3: "w_calls w3 = w_calls ?w2" by simp
  show ?thesis
    unfolding process_found [OF found] sv
    by (cases x) (simp_all add: catchHandler_calls c3 c2)
qed


section \<open>The account lookup of the loop\<close>

lemma oneErrors_missing:
  assumes "n \<noteq> ''all''" and "activeAccount u n = None"
  shows "oneErrors e u p n = [\<lparr>e_platform = n, e_error = ''Account not connected or inactive''\<rparr>]"
    and "oneResults e u p n = []" and "oneCalls e u p n = []"
  using assms
  by (simp_all add: oneErrors_def oneResults_def oneCalls_def publishOne_def activeAccount_def)

lemma find_expiresAt:
  "find (\<lambda>acc. toLowerCase (acc_platform acc) = m \<and> acc_isActive acc)
        (map (\<lambda>a. a\<lparr>acc_expiresAt := f a\<rparr>) accs)
   = map_option (\<lambda>a. a\<lparr>acc_expiresAt := f a\<rparr>)
       (find (\<lambda>acc. toLowerCase (acc_platform acc) = m \<and> acc_isActive acc) accs)"
  by (induction accs) auto

lemma publishTo_expiresAt:
  "publishTo e (ca\<lparr>acc_expiresAt := x\<rparr>) p n = publishTo e ca p n"
  by (simp add: publishTo_def publishFacebook_def publishInstagram_def publishPinterest_def Let_def
           split: option.splits)

lemma publishOne_expiresAt:
  "publishOne e (u\<lparr>u_connectedAccounts := map (\<lambda>a. a\<lparr>acc_expiresAt := f a\<rparr>) (u_connectedAccounts u)\<rparr>) p n
     = publishOne e u p n"
  by (simp add: publishOne_def find_expiresAt publishTo_expiresAt
           split: option.splits prod.splits sum.splits)

section \<open>What any run changes in the two collections\<close>

lemma process_posts_cases:
  "w_posts (run_world (processScheduledPost e p w))
     \<in> {w_posts w, setStatus (p_id p) Published (w_posts w), setStatus (p_id p) Failed (w_posts w)}"
proof -
  from User_findById_cases [of "p_user p" w] show ?thesis
  proof (elim disjE conjE)
    assume thr: "User_findById (p_user p) w = (Throw ''MongoError'', snd (dbCall w))"
    then have r: "processScheduledPost e p w = catchHandler p [] [] (snd (dbCall w))"
      by (simp add: processScheduledPost_def)
    show ?thesis unfolding r
      using catchHandler_cases [of p "[]" "[]" "snd (dbCall w)"] by (auto simp: dbCall_fields)
  next
    assume ok: "User_findById (p_user p) w = (Ok (find (\<lambda>u. u_id u = p_user p) (w_users w)), snd (dbCall w))"
    show ?thesis
    proof (cases "find (\<lambda>u. u_id u = p_user p) (w_users w)")
      case None
      with ok show ?thesis by (simp add: processScheduledPost_def dbCall_fields)
    next
      case (Some u)
      with ok have found: "User_findById (p_user p) w = (Ok (Some u), snd (dbCall w))" by simp
      from process_found_cases [OF found, of e] show ?thesis by auto
    qed
  qed
qed

lemma process_users: "w_users (run_world (processScheduledPost e p w)) = w_users w"
proof -
  from User_findById_cases [of "p_user p" w] show ?thesis
  proof (elim disjE conjE)
    assume thr: "User_findById (p_user p) w = (Throw ''MongoError'', snd (dbCall w))"
    then show ?thesis
      by (simp add: processScheduledPost_def catchHandler_users dbCall_fields)
  next
    assume ok: "User_findById (p_user p) w = (Ok (find (\<lambda>u. u_id u = p_user p) (w_users w)), snd (dbCall w))"
    show ?thesis
    proof (cases "find (\<lambda>u. u_id u = p_user p) (w_users w)")
      case None
      with ok show ?thesis by (simp add: processScheduledPost_def dbCall_fields)
    next
      case (Some u)
      with ok have found: "User_findById (p_user p) w = (Ok (Some u), snd (dbCall w))" by simp
      let ?st = "if concat (map (oneResults e u p) (platformsOf p)) \<noteq> [] then Published else Failed"
      let ?w2 = "(snd (dbCall w))\<lparr>w_calls := w_calls (snd (dbCall w)) @ concat (map (oneCalls e u p) (platformsOf p))\<rparr>"
      obtain x w3 where sv: "Post_save p ?st ?w2 = (x, w3)" by (cases "Post_save p ?st ?w2")
      from Post_save_users [of p ?st ?w2] sv have u3: "w_users w3 = w_users w" by (simp add: dbCall_fields)
      show ?thesis unfolding process_found [OF found] sv
        by (cases x) (simp_all add: catchHandler_users u3)
    qed
  qed
qed

section \<open>The query of the job selector\<close>

lemma Post_find_cases:
  "Post_find now w = (Ok (take 10 (filter (isDue now) (w_posts w))), snd (dbCall w)) \<and> \<not> fst (dbCall w)
   \<or> Post_find now w = (Throw ''MongoError'', snd (dbCall w)) \<and> fst (dbCall w)"
  using dbCall_fields(1) [of w]
  by (cases "dbCall w") (auto simp: Post_find_def split: bool.splits)

lemma due_batch_member:
  assumes "q \<in> set (take 10 (filter (isDue now) ps))"
  shows "q \<in> set ps \<and> p_status q = Scheduled \<and> (\<exists>d. p_scheduledDate q = Some d \<and> d \<le> now)"
proof -
  from assms have "q \<in> set (filter (isDue now) ps)" by (rule in_set_takeD)
  then show ?thesis by (auto simp: isDue_def split: option.splits)
qed

lemma batchOf_cases:
  "batchOf (Post_find now w) = take 10 (filter (isDue now) (w_posts w)) \<or> batchOf (Post_find now w) = []"
  using Post_find_cases [of now w] by (auto simp: batchOf_def)

lemma Post_find_posts: "w_posts (snd (Post_find now w)) = w_posts w"
  using Post_find_cases [of now w] by (auto simp: dbCall_fields)

section \<open>Scheduler runs without database errors\<close>

lemma process_nofault:
  assumes "w_faults w = []"
  shows "processScheduledPost e p w =
    (case find (\<lambda>v. u_id v = p_user p) (w_users w) of
       None \<Rightarrow> \<lparr>run_world = w, run_results = [], run_errors = [], run_exit = UserNotFound\<rparr>
     | Some u \<Rightarrow>
         \<lparr>run_world = w\<lparr>w_calls := w_calls w @ concat (map (oneCalls e u p) (platformsOf p)),
                          w_posts := setStatus (p_id p)
                             (if concat (map (oneResults e u p) (platformsOf p)) \<noteq> [] then Published else Failed)
                             (w_posts w)\<rparr>,
          run_results = concat (map (oneResults e u p) (platformsOf p)),
          run_errors = concat (map (oneErrors e u p) (platformsOf p)),
          run_exit = Completed\<rparr>)"
  using assms
  by (simp add: processScheduledPost_def User_findById_def dbCall_def publishLoop_eq Post_save_def
        setStatus_def split: option.splits)

lemma setStatus_ids: "map p_id (setStatus i st ps) = map p_id ps"
  by (induction ps) (auto simp: setStatus_def)

lemma setStatus_other: "q \<in> set ps \<Longrightarrow> p_id q \<noteq> i \<Longrightarrow> q \<in> set (setStatus i st ps)"
  by (induction ps) (auto simp: setStatus_def)

lemma stuck_process:
  assumes nofault: "w_faults w = []" and q: "q \<in> set (w_posts w)"
    and good: "find (\<lambda>v. u_id v = p_user p) (w_users w) = None \<or> p_id p \<noteq> p_id q"
  shows "w_faults (run_world (processScheduledPost e p w)) = []
       \<and> w_users (run_world (processScheduledPost e p w)) = w_users w
       \<and> map p_id (w_posts (run_world (processScheduledPost e p w))) = map p_id (w_posts w)
       \<and> q \<in> set (w_posts (run_world (processScheduledPost e p w)))"
proof (cases "find (\<lambda>v. u_id v = p_user p) (w_users w)")
  case None
  with nofault q show ?thesis by (simp add: process_nofault)
next
  case (Some u)
  with good have ne: "p_id q \<noteq> p_id p" by auto
  from Some nofault q ne show ?thesis
    by (simp add: process_nofault setStatus_ids setStatus_other)
qed

lemma stuck_processEach:
  assumes "w_faults w = []" and "q \<in> set (w_posts w)"
    and "\<forall>p \<in> set batch. find (\<lambda>v. u_id v = p_user p) (w_users w) = None \<or> p_id p \<noteq> p_id q"
  shows "w_faults (processEach e batch w) = []
       \<and> w_users (processEach e batch w) = w_users w
       \<and> map p_id (w_posts (processEach e batch w)) = map p_id (w_posts w)
       \<and> q \<in> set (w_posts (processEach e batch w))"
  using assms
proof (induction batch arbitrary: w)
  case Nil
  then show ?case by simp
next
  case (Cons p ps)
  let ?w' = "run_world (processScheduledPost e p w)"
  from Cons.prems have good: "find (\<lambda>v. u_id v = p_user p) (w_users w) = None \<or> p_id p \<noteq> p_id q"
    by simp
  note st = stuck_process [OF Cons.prems(1) Cons.prems(2) good, of e]
  from st have f: "w_faults ?w' = []" and u: "w_users ?w' = w_users w"
    and i: "map p_id (w_posts ?w') = map p_id (w_posts w)" and m: "q \<in> set (w_posts ?w')"
    by simp_all
  from Cons.prems(3) u
  have rest: "\<forall>p \<in> set ps. find (\<lambda>v. u_id v = p_user p) (w_users ?w') = None \<or> p_id p \<noteq> p_id q"
    by simp
  from Cons.IH [OF f m rest] u i
  have ih: "w_faults (processEach e ps ?w') = [] \<and> w_users (processEach e ps ?w') = w_users w
      \<and> map p_id (w_posts (processEach e ps ?w')) = map p_id (w_posts w)
      \<and> q \<in> set (w_posts (processEach e ps ?w'))" by simp
  show ?case
  proof (cases "run_exit (processScheduledPost e p w) = Rejected")
    case True
    with st show ?thesis by (simp add: Let_def)
  next
    case False
    with ih show ?thesis by (simp add: Let_def)
  qed
qed

lemma distinct_ids_eq:
  assumes "distinct (map p_id ps)" "p \<in> set ps" "q \<in> set ps" "p_id p = p_id q"
  shows "p = q"
  using assms by (meson distinct_map inj_onD)

lemma stuck_check:
  assumes nofault: "w_faults w = []" and q: "q \<in> set (w_posts w)"
    and ids: "distinct (map p_id (w_posts w))"
    and missing: "find (\<lambda>v. u_id v = p_user q) (w_users w) = None"
  shows "w_faults (checkScheduledPosts e now w) = []
       \<and> w_users (checkScheduledPosts e now w) = w_users w
       \<and> map p_id (w_posts (checkScheduledPosts e now w)) = map p_id (w_posts w)
       \<and> q \<in> set (w_posts (checkScheduledPosts e now w))"
proof -
  let ?batch = "take 10 (filter (isDue now) (w_posts w))"
  from nofault have pf: "Post_find now w = (Ok ?batch, w)"
    by (simp add: Post_find_def dbCall_def)
  have good: "\<forall>p \<in> set ?batch. find (\<lambda>v. u_id v = p_user p) (w_users w) = None \<or> p_id p \<noteq> p_id q"
  proof
    fix p assume "p \<in> set ?batch"
    then have p: "p \<in> set (w_posts w)" using due_batch_member by blast
    show "find (\<lambda>v. u_id v = p_user p) (w_users w) = None \<or> p_id p \<noteq> p_id q"
    proof (cases "p_id p = p_id q")
      case True
      from distinct_ids_eq [OF ids p q True] missing show ?thesis by simp
    next
      case False
      then show ?thesis by simp
    qed
  qed
  from stuck_processEach [OF nofault q good, of e] show ?thesis
    by (simp add: checkScheduledPosts_def pf)
qed

lemma stuck_ticks:
  assumes "w_faults w = []" and "q \<in> set (w_posts w)"
    and "distinct (map p_id (w_posts w))"
    and "find (\<lambda>v. u_id v = p_user q) (w_users w) = None"
  shows "w_faults (schedulerTicks e nows w) = [] \<and> q \<in> set (w_posts (schedulerTicks e nows w))"
  using assms
proof (induction nows arbitrary: w)
  case Nil
  then show ?case by simp
next
  case (Cons now nows)
  note c = stuck_check [OF Cons.prems, of e now]
  from c have f: "w_faults (checkScheduledPosts e now w) = []"
    and m: "q \<in> set (w_posts (checkScheduledPosts e now w))" by simp_all
  from c Cons.prems(3) have d: "distinct (map p_id (w_posts (checkScheduledPosts e now w)))" by simp
  from c Cons.prems(4) have u: "find (\<lambda>v. u_id v = p_user q) (w_users (checkScheduledPosts e now w)) = None"
    by simp
  from Cons.IH [OF f m d u] show ?case by simp
qed

lemma within_limit:
  "q \<in> set xs \<Longrightarrow> P q \<Longrightarrow> length (filter P (takeWhile (\<lambda>x. x \<noteq> q) xs)) < n
     \<Longrightarrow> q \<in> set (take n (filter P xs))"
proof (induction xs arbitrary: n)
  case Nil
  then show ?case by simp
next
  case (Cons x xs)
  show ?case
  proof (cases "x = q")
    case True
    with Cons.prems show ?thesis by (cases n) auto
  next
    case False
    with Cons.prems have q: "q \<in> set xs" by simp
    show ?thesis
    proof (cases "P x")
      case True
      with False Cons.prems obtain m where n: "n = Suc m"
        and l: "length (filter P (takeWhile (\<lambda>x. x \<noteq> q) xs)) < m"
        by (cases n) auto
      from Cons.IH [OF q Cons.prems(2) l] True n show ?thesis by simp
    next
      case pf: False
      with False Cons.prems have "length (filter P (takeWhile (\<lambda>x. x \<noteq> q) xs)) < n" by simp
      from Cons.IH [OF q Cons.prems(2) this] pf show ?thesis by simp
    qed
  qed
qed

section \<open>Jobs that are no longer scheduled\<close>

lemma off_setStatus:
  assumes "\<forall>q \<in> set ps. p_id q = i \<longrightarrow> p_status q \<noteq> Scheduled" and "st \<noteq> Scheduled"
  shows "\<forall>q \<in> set (setStatus j st ps). p_id q = i \<longrightarrow> p_status q \<noteq> Scheduled"
  using assms by (auto simp: setStatus_def)

lemma off_process:
  assumes "\<forall>q \<in> set (w_posts w). p_id q = i \<longrightarrow> p_status q \<noteq> Scheduled"
  shows "\<forall>q \<in> set (w_posts (run_world (processScheduledPost e p w))). p_id q = i \<longrightarrow> p_status q \<noteq> Scheduled"
proof -
  from process_posts_cases [of e p w]
  consider "w_posts (run_world (processScheduledPost e p w)) = w_posts w"
    | "w_posts (run_world (processScheduledPost e p w)) = setStatus (p_id p) Published (w_posts w)"
    | "w_posts (run_world (processScheduledPost e p w)) = setStatus (p_id p) Failed (w_posts w)"
    by auto
  then show ?thesis
  proof cases
    case 1
    with assms show ?thesis by simp
  next
    case 2
    show ?thesis unfolding 2 by (rule off_setStatus [OF assms]) simp
  next
    case 3
    show ?thesis unfolding 3 by (rule off_setStatus [OF assms]) simp
  qed
qed

lemma off_processEach:
  assumes "\<forall>q \<in> set (w_posts w). p_id q = i \<longrightarrow> p_status q \<noteq> Scheduled"
  shows "\<forall>q \<in> set (w_posts (processEach e batch w)). p_id q = i \<longrightarrow> p_status q \<noteq> Scheduled"
  using assms
proof (induction batch arbitrary: w)
  case Nil
  then show ?case by simp
next
  case (Cons p ps)
  note st = off_process [OF Cons.prems, of e p]
  show ?case
  proof (cases "run_exit (processScheduledPost e p w) = Rejected")
    case True
    with st show ?thesis by (simp add: Let_def)
  next
    case False
    with Cons.IH [OF st] show ?thesis by (simp add: Let_def)
  qed
qed

lemma off_check:
  assumes "\<forall>q \<in> set (w_posts w). p_id q = i \<longrightarrow> p_status q \<noteq> Scheduled"
  shows "\<forall>q \<in> set (w_posts (checkScheduledPosts e now w)). p_id q = i \<longrightarrow> p_status q \<noteq> Scheduled"
proof -
  from assms Post_find_posts [of now w]
  have s: "\<forall>q \<in> set (w_posts (snd (Post_find now w))). p_id q = i \<longrightarrow> p_status q \<noteq> Scheduled"
    by simp
  obtain x w1 where pf: "Post_find now w = (x, w1)" by (cases "Post_find now w")
  with s have s1: "\<forall>q \<in> set (w_posts w1). p_id q = i \<longrightarrow> p_status q \<noteq> Scheduled" by simp
  show ?thesis
  proof (cases x)
    case (Ok batch)
    with pf off_processEach [OF s1, of e batch] show ?thesis by (simp add: checkScheduledPosts_def)
  next
    case (Throw m)
    with pf s1 show ?thesis by (simp add: checkScheduledPosts_def)
  qed
qed

lemma off_ticks:
  assumes "\<forall>q \<in> set (w_posts w). p_id q = i \<longrightarrow> p_status q \<noteq> Scheduled"
  shows "\<forall>q \<in> set (w_posts (schedulerTicks e nows w)). p_id q = i \<longrightarrow> p_status q \<noteq> Scheduled"
  using assms
proof (induction nows arbitrary: w)
  case Nil
  then show ?case by simp
next
  case (Cons now nows)
  from Cons.IH [OF off_check [OF Cons.prems, of e now]] show ?case by simp
qed

lemma process_exit_posts:
  "run_exit (processScheduledPost e p w) = Completed \<or> run_exit (processScheduledPost e p w) = MarkedFailed
   \<Longrightarrow> w_posts (run_world (processScheduledPost e p w)) = setStatus (p_id p) Published (w_posts w)
     \<or> w_posts (run_world (processScheduledPost e p w)) = setStatus (p_id p) Failed (w_posts w)"
proof -
  assume ex: "run_exit (processScheduledPost e p w) = Completed \<or> run_exit (processScheduledPost e p w) = MarkedFailed"
  from User_findById_cases [of "p_user p" w] show ?thesis
  proof (elim disjE conjE)
    assume thr: "User_findById (p_user p) w = (Throw ''MongoError'', snd (dbCall w))"
    then have r: "processScheduledPost e p w = catchHandler p [] [] (snd (dbCall w))"
      by (simp add: processScheduledPost_def)
    from ex show ?thesis unfolding r
      using catchHandler_cases [of p "[]" "[]" "snd (dbCall w)"] by (auto simp: dbCall_fields)
  next
    assume ok: "User_findById (p_user p) w = (Ok (find (\<lambda>u. u_id u = p_user p) (w_users w)), snd (dbCall w))"
    show ?thesis
    proof (cases "find (\<lambda>u. u_id u = p_user p) (w_users w)")
      case None
      with ok ex show ?thesis by (simp add: processScheduledPost_def)
    next
      case (Some u)
      with ok have found: "User_findById (p_user p) w = (Ok (Some u), snd (dbCall w))" by simp
      from process_found_cases [OF found, of e] ex show ?thesis by auto
    qed
  qed
qed

section \<open>Saving a connected account\<close>

lemma User_save_cases:
  "User_save u w = (Throw ''ValidationError'', w) \<and> \<not> list_all validAccount (u_connectedAccounts u)
   \<or> User_save u w = (Throw ''MongoError'', snd (dbCall w)) \<and> list_all validAccount (u_connectedAccounts u)
   \<or> User_save u w = (Ok (), (snd (dbCall w))\<lparr>w_users :=
           map (\<lambda>v. if u_id v = u_id u then v\<lparr>u_connectedAccounts := u_connectedAccounts u\<rparr> else v)
               (w_users w)\<rparr>)
       \<and> list_all validAccount (u_connectedAccounts u)"
  using dbCall_fields(2) [of w]
  by (cases "dbCall w") (auto simp: User_save_def split: bool.splits)

lemma find_id: "find (\<lambda>v. u_id v = i) us = Some u \<Longrightarrow> u_id u = i \<and> u \<in> set us"
  by (induction us) (auto split: if_splits)

lemma saveAccount_Ok:
  assumes "saveAccountToStorage e userId platform ad firebaseUid w = (Ok (), w')"
  shows "\<exists>u. find (\<lambda>v. u_id v = userId) (w_users w) = Some u
       \<and> list_all validAccount (filter (\<lambda>acc. acc_platform acc \<noteq> platform) (u_connectedAccounts u) @ [newAccount ad])
       \<and> w_users w' = map (\<lambda>v. if u_id v = userId
            then v\<lparr>u_connectedAccounts :=
                    filter (\<lambda>acc. acc_platform acc \<noteq> platform) (u_connectedAccounts u) @ [newAccount ad]\<rparr>
            else v) (w_users w)"
proof -
  from User_findById_cases [of userId w] assms
  have fb: "User_findById userId w = (Ok (find (\<lambda>v. u_id v = userId) (w_users w)), snd (dbCall w))"
    by (auto simp: saveAccountToStorage_def)
  with assms obtain u where u: "find (\<lambda>v. u_id v = userId) (w_users w) = Some u"
    by (cases "find (\<lambda>v. u_id v = userId) (w_users w)") (auto simp: saveAccountToStorage_def)
  let ?u' = "u\<lparr>u_connectedAccounts :=
                 filter (\<lambda>acc. acc_platform acc \<noteq> platform) (u_connectedAccounts u) @ [newAccount ad]\<rparr>"
  from find_id [OF u] have uid: "u_id ?u' = userId" by simp
  from assms fb u obtain w2 where sv: "User_save ?u' (snd (dbCall w)) = (Ok (), w2)"
    and w': "w_users w' = w_users w2"
    by (auto simp: saveAccountToStorage_def Let_def split: prod.splits res.splits if_splits)
  from User_save_cases [of ?u' "snd (dbCall w)"] sv
  have "list_all validAccount (u_connectedAccounts ?u')"
    and "w_users w2 = map (\<lambda>v. if u_id v = u_id ?u' then v\<lparr>u_connectedAccounts := u_connectedAccounts ?u'\<rparr> else v)
               (w_users (snd (dbCall w)))"
    by auto
  with u w' uid show ?thesis by (simp add: dbCall_fields)
qed

lemma enum_lower: "p \<in> set platformEnum \<Longrightarrow> toLowerCase p = p"
  by (auto simp: platformEnum_def toLowerCase_def lowerChar_def)

lemma valid_filter_lower:
  assumes "list_all validAccount accs" and "platform \<in> set platformEnum"
  shows "filter (\<lambda>a. toLowerCase (acc_platform a) = toLowerCase platform) accs
       = filter (\<lambda>a. acc_platform a = platform) accs"
  using assms
  by (induction accs) (auto simp: validAccount_def enum_lower)

section \<open>The processed codes and their timers\<close>

lemma deleteCode_fields:
  "w_users (deleteCode Q d w) = w_users w" "w_calls (deleteCode Q d w) = w_calls w"
  "w_timers (deleteCode Q d w) = w_timers w" "w_posts (deleteCode Q d w) = w_posts w"
  "w_faults (deleteCode Q d w) = w_faults w"
  by (simp_all add: deleteCode_def split: option.splits)

lemma hasCode_deleteCode:
  "hasCode P c (deleteCode Q d w) = (hasCode P c w \<and> \<not> (Q = P \<and> d = c))"
  by (auto simp: hasCode_def deleteCode_def split: option.splits)

lemma fold_delete_fields:
  "w_users (fold (\<lambda>p. deleteCode (fst (snd p)) (snd (snd p))) ts w) = w_users w"
  "w_calls (fold (\<lambda>p. deleteCode (fst (snd p)) (snd (snd p))) ts w) = w_calls w"
  "w_timers (fold (\<lambda>p. deleteCode (fst (snd p)) (snd (snd p))) ts w) = w_timers w"
  "w_posts (fold (\<lambda>p. deleteCode (fst (snd p)) (snd (snd p))) ts w) = w_posts w"
  "w_faults (fold (\<lambda>p. deleteCode (fst (snd p)) (snd (snd p))) ts w) = w_faults w"
  by (induction ts arbitrary: w; simp add: deleteCode_fields)+

lemma hasCode_fold_delete:
  "hasCode P c (fold (\<lambda>p. deleteCode (fst (snd p)) (snd (snd p))) ts w)
     = (hasCode P c w \<and> (P, c) \<notin> snd ` set ts)"
proof (induction ts arbitrary: w)
  case Nil
  show ?case by simp
next
  case (Cons x ts)
  show ?case by (cases x) (auto simp: Cons.IH hasCode_deleteCode)
qed

lemma fireTimers_fields:
  "w_users (fireTimers t w) = w_users w" "w_calls (fireTimers t w) = w_calls w"
  "w_posts (fireTimers t w) = w_posts w" "w_faults (fireTimers t w) = w_faults w"
  by (simp_all add: fireTimers_def case_prod_unfold fold_delete_fields)

lemma fireTimers_timers:
  "w_timers (fireTimers t w) = filter (\<lambda>x. \<not> fst x \<le> t) (w_timers w)"
  by (simp add: fireTimers_def case_prod_unfold)

lemma hasCode_timers_upd: "hasCode P c (w\<lparr>w_timers := ts\<rparr>) = hasCode P c w"
  by (simp add: hasCode_def)

lemma hasCode_fireTimers:
  "hasCode P c (fireTimers t w)
     = (hasCode P c w \<and> (P, c) \<notin> snd ` set (filter (\<lambda>x. fst x \<le> t) (w_timers w)))"
  by (simp add: fireTimers_def hasCode_timers_upd hasCode_fold_delete case_prod_unfold)


lemma hasCode_cong: "w_processedCodes w' = w_processedCodes w \<Longrightarrow> hasCode P c w' = hasCode P c w"
  by (simp add: hasCode_def)

lemma hasCode_addCode: "hasCode P c (addCode Q d w) = (hasCode P c w \<or> (P = Q \<and> c = d))"
  by (auto simp: hasCode_def addCode_def split: option.splits)

lemma User_findById_snd: "snd (User_findById i w) = snd (dbCall w)"
  using User_findById_cases [of i w] by auto

lemma User_save_kept:
  "w_processedCodes (snd (User_save u w)) = w_processedCodes w"
  "w_timers (snd (User_save u w)) = w_timers w"
  "w_calls (snd (User_save u w)) = w_calls w"
  using User_save_cases [of u w] by (auto simp: dbCall_fields)

lemma saveAccount_kept:
  "w_processedCodes (snd (saveAccountToStorage e i P ad f w)) = w_processedCodes w
   \<and> w_timers (snd (saveAccountToStorage e i P ad f w)) = w_timers w
   \<and> (\<exists>rest. w_calls (snd (saveAccountToStorage e i P ad f w)) = w_calls w @ rest)"
proof -
  obtain x w1 where fb: "User_findById i w = (x, w1)" by (cases "User_findById i w")
  with User_findById_snd [of i w] have w1: "w1 = snd (dbCall w)" by simp
  show ?thesis
  proof (cases x)
    case (Throw m)
    with fb show ?thesis by (simp add: saveAccountToStorage_def w1 dbCall_fields)
  next
    case (Ok found)
    show ?thesis
    proof (cases found)
      case None
      with fb Ok show ?thesis by (simp add: saveAccountToStorage_def w1 dbCall_fields)
    next
      case (Some u)
      let ?u' = "u\<lparr>u_connectedAccounts :=
                     filter (\<lambda>acc. acc_platform acc \<noteq> P) (u_connectedAccounts u) @ [newAccount ad]\<rparr>"
      obtain y w2 where sv: "User_save ?u' w1 = (y, w2)" by (cases "User_save ?u' w1")
      from User_save_kept [of ?u' w1] sv
      have k: "w_processedCodes w2 = w_processedCodes w" "w_timers w2 = w_timers w" "w_calls w2 = w_calls w"
        by (simp_all add: w1 dbCall_fields)
      from fb Ok Some sv k show ?thesis
        by (cases y) (simp_all add: saveAccountToStorage_def Let_def del: filter_append)
    qed
  qed
qed

lemma linkAccount_kept:
  "w_processedCodes (snd (linkAccount e P r i c w)) = w_processedCodes w
   \<and> w_timers (snd (linkAccount e P r i c w)) = w_timers w
   \<and> (\<exists>rest. w_calls (snd (linkAccount e P r i c w)) = w_calls w @ CompleteOAuthFlow P c # rest)"
proof -
  let ?w1 = "w\<lparr>w_calls := w_calls w @ [CompleteOAuthFlow P c]\<rparr>"
  show ?thesis
  proof (cases "completeOAuthFlow e P c")
    case (Inl m)
    then show ?thesis by (simp add: linkAccount_def)
  next
    case (Inr ad)
    obtain x w2 where fb: "User_findById i ?w1 = (x, w2)" by (cases "User_findById i ?w1")
    with User_findById_snd [of i ?w1] have w2: "w2 = snd (dbCall ?w1)" by simp
    have k2: "w_processedCodes w2 = w_processedCodes w" "w_timers w2 = w_timers w"
      "w_calls w2 = w_calls w @ [CompleteOAuthFlow P c]"
      by (simp_all add: w2 dbCall_fields)
    show ?thesis
    proof (cases x)
      case (Throw m)
      with Inr fb k2 show ?thesis by (simp add: linkAccount_def)
    next
      case (Ok found)
      let ?f = "case found of None \<Rightarrow> None | Some u \<Rightarrow> u_firebaseUid u"
      obtain y w3 where sv: "saveAccountToStorage e i P ad ?f w2 = (y, w3)"
        by (cases "saveAccountToStorage e i P ad ?f w2")
      from saveAccount_kept [of e i P ad ?f w2] sv k2
      obtain rest where k3: "w_processedCodes w3 = w_processedCodes w" "w_timers w3 = w_timers w"
        "w_calls w3 = w_calls w @ CompleteOAuthFlow P c # rest"
        by auto
      from Inr fb Ok sv k3 show ?thesis
        by (cases y) (simp_all add: linkAccount_def Let_def)
    qed
  qed
qed

lemma callback_wellFormed:
  assumes "wellFormed e r c i"
  shows "oauthCallback P e t r w =
    (if hasCode P c w then (SuccessHTML P ''Already connected'', w)
     else linkAccount e P r i c (setTimeout (t + retention) P c (addCode P c w)))"
  using assms by (simp add: oauthCallback_def wellFormed_def truthy_def)

lemma callback_world:
  "snd (oauthCallback P e t r w) = w
   \<or> (\<exists>c i. \<not> hasCode P c w
        \<and> snd (oauthCallback P e t r w)
            = snd (linkAccount e P r i c (setTimeout (t + retention) P c (addCode P c w))))"
  by (auto simp: oauthCallback_def Let_def split: option.splits)


lemma arm_fields:
  "w_timers (setTimeout d P c (addCode P c w)) = w_timers w @ [(d, P, c)]"
  "hasCode Q x (setTimeout d P c (addCode P c w)) = (hasCode Q x w \<or> (Q = P \<and> x = c))"
  "w_users (setTimeout d P c (addCode P c w)) = w_users w"
  "w_calls (setTimeout d P c (addCode P c w)) = w_calls w"
  by (auto simp: setTimeout_def addCode_def hasCode_def split: option.splits)

lemma linked_world:
  "w_timers (snd (linkAccount e P r i c (setTimeout d P c (addCode P c w)))) = w_timers w @ [(d, P, c)]"
  "hasCode Q x (snd (linkAccount e P r i c (setTimeout d P c (addCode P c w))))
     = (hasCode Q x w \<or> (Q = P \<and> x = c))"
proof -
  let ?w' = "setTimeout d P c (addCode P c w)"
  from linkAccount_kept [of e P r i c ?w']
  have k: "w_processedCodes (snd (linkAccount e P r i c ?w')) = w_processedCodes ?w'"
    "w_timers (snd (linkAccount e P r i c ?w')) = w_timers ?w'" by simp_all
  show "w_timers (snd (linkAccount e P r i c ?w')) = w_timers w @ [(d, P, c)]"
    by (simp only: k arm_fields)
  show "hasCode Q x (snd (linkAccount e P r i c ?w')) = (hasCode Q x w \<or> (Q = P \<and> x = c))"
    by (simp only: hasCode_cong [OF k(1)] arm_fields)
qed

lemma recorded_callback:
  assumes "recorded P c d w"
  shows "recorded P c d (snd (oauthCallback Q e t r w))"
proof -
  from callback_world [of Q e t r w] show ?thesis
  proof (elim disjE exE conjE)
    assume "snd (oauthCallback Q e t r w) = w"
    with assms show ?thesis by simp
  next
    fix c' i
    assume new: "\<not> hasCode Q c' w"
      and w': "snd (oauthCallback Q e t r w)
                 = snd (linkAccount e Q r i c' (setTimeout (t + retention) Q c' (addCode Q c' w)))"
    from assms new have ne: "(Q, c') \<noteq> (P, c)" by (auto simp: recorded_def)
    from assms ne show ?thesis
      unfolding w' recorded_def linked_world by auto
  qed
qed

lemma recorded_fire:
  assumes "recorded P c d w" and "t < d"
  shows "recorded P c d (fireTimers t w)"
proof -
  from assms have none: "(P, c) \<notin> snd ` set (filter (\<lambda>x. fst x \<le> t) (w_timers w))"
    by (auto simp: recorded_def list_all_iff)
  from assms none show ?thesis
    by (auto simp: recorded_def hasCode_fireTimers fireTimers_timers list_all_iff)
qed

lemma recorded_deliver:
  assumes "recorded P c d w" and "t < d"
  shows "recorded P c d (snd (deliver e Q t r w))"
  unfolding deliver_def by (rule recorded_callback [OF recorded_fire [OF assms]])

lemma recorded_deliverAll:
  assumes "recorded P c d w" and "list_all (\<lambda>ev. fst ev < d) evs"
  shows "recorded P c d (deliverAll e evs w)"
  using assms
proof (induction evs arbitrary: w)
  case Nil
  then show ?case by simp
next
  case (Cons ev evs)
  obtain t Q r where ev: "ev = (t, Q, r)" by (cases ev)
  from Cons.prems have t: "t < d" and rest: "list_all (\<lambda>ev. fst ev < d) evs" by (simp_all add: ev)
  from Cons.IH [OF recorded_deliver [OF Cons.prems(1) t] rest] show ?case by (simp add: ev)
qed

lemma timersInv_fire:
  assumes "timersInv w"
  shows "timersInv (fireTimers t w)"
proof -
  from assms have d: "distinct (map snd (w_timers w))"
    and h: "\<And>x. x \<in> set (w_timers w) \<Longrightarrow> hasCode (fst (snd x)) (snd (snd x)) w"
    by (auto simp: timersInv_def list_all_iff)
  have d': "distinct (map snd (filter (\<lambda>x. \<not> fst x \<le> t) (w_timers w)))"
    using d by (rule distinct_map_filter)
  have h': "hasCode (fst (snd x)) (snd (snd x)) (fireTimers t w)"
    if x: "x \<in> set (w_timers w)" and late: "\<not> fst x \<le> t" for x
  proof -
    have "(fst (snd x), snd (snd x)) \<notin> snd ` set (filter (\<lambda>x. fst x \<le> t) (w_timers w))"
    proof
      assume "(fst (snd x), snd (snd x)) \<in> snd ` set (filter (\<lambda>x. fst x \<le> t) (w_timers w))"
      then obtain y where y: "y \<in> set (w_timers w)" "fst y \<le> t" "snd y = snd x" by auto
      from d x y(1) y(3) have "y = x" by (meson distinct_map inj_onD)
      with y(2) late show False by simp
    qed
    with h [OF x] show ?thesis by (simp add: hasCode_fireTimers)
  qed
  from d' h' show ?thesis
    by (auto simp: timersInv_def fireTimers_timers list_all_iff)
qed

lemma timersInv_callback:
  assumes "timersInv w"
  shows "timersInv (snd (oauthCallback Q e t r w))"
proof -
  from callback_world [of Q e t r w] show ?thesis
  proof (elim disjE exE conjE)
    assume "snd (oauthCallback Q e t r w) = w"
    with assms show ?thesis by simp
  next
    fix c' i
    assume new: "\<not> hasCode Q c' w"
      and w': "snd (oauthCallback Q e t r w)
                 = snd (linkAccount e Q r i c' (setTimeout (t + retention) Q c' (addCode Q c' w)))"
    from assms new have fresh: "(Q, c') \<notin> snd ` set (w_timers w)"
      by (auto simp: timersInv_def list_all_iff)
    from assms fresh show ?thesis
      unfolding w' timersInv_def linked_world by (auto simp: list_all_iff)
  qed
qed

lemma timersInv_deliver: "timersInv w \<Longrightarrow> timersInv (snd (deliver e Q t r w))"
  unfolding deliver_def by (rule timersInv_callback [OF timersInv_fire])

lemma timersInv_start: "w_timers w = [] \<Longrightarrow> timersInv w"
  by (simp add: timersInv_def)


lemma responses_differ: "failureResponse P r m \<noteq> successResponse P r ad"
  by (simp add: failureResponse_def successResponse_def Let_def)

lemma linkAccount_success:
  assumes flow: "completeOAuthFlow e P c = Inr ad"
    and ok: "fst (linkAccount e P r i c w) = successResponse P r ad"
  shows "(\<exists>v \<in> set (w_users (snd (linkAccount e P r i c w))). u_id v = i)
       \<and> (\<forall>v \<in> set (w_users (snd (linkAccount e P r i c w))). u_id v = i \<longrightarrow>
             newAccount ad \<in> set (u_connectedAccounts v))"
proof -
  let ?w1 = "w\<lparr>w_calls := w_calls w @ [CompleteOAuthFlow P c]\<rparr>"
  obtain x w2 where fb: "User_findById i ?w1 = (x, w2)" by (cases "User_findById i ?w1")
  show ?thesis
  proof (cases x)
    case (Throw m)
    with flow fb ok responses_differ [of P r m ad] show ?thesis by (simp add: linkAccount_def)
  next
    case (Ok found)
    let ?f = "case found of None \<Rightarrow> None | Some u \<Rightarrow> u_firebaseUid u"
    obtain y w3 where sv: "saveAccountToStorage e i P ad ?f w2 = (y, w3)"
      by (cases "saveAccountToStorage e i P ad ?f w2")
    show ?thesis
    proof (cases y)
      case (Throw m)
      with flow fb Ok sv ok responses_differ [of P r m ad] show ?thesis
        by (simp add: linkAccount_def Let_def)
    next
      case (Ok u)
      with sv have saved: "saveAccountToStorage e i P ad ?f w2 = (Ok (), w3)" by simp
      from flow fb \<open>x = Ok found\<close> sv have w': "snd (linkAccount e P r i c w) = w3"
        by (cases y) (simp_all add: linkAccount_def Let_def)
      from saveAccount_Ok [OF saved] obtain u0 where u0: "find (\<lambda>v. u_id v = i) (w_users w2) = Some u0"
        and users: "w_users w3 = map (\<lambda>v. if u_id v = i
            then v\<lparr>u_connectedAccounts :=
                    filter (\<lambda>acc. acc_platform acc \<noteq> P) (u_connectedAccounts u0) @ [newAccount ad]\<rparr>
            else v) (w_users w2)"
        by blast
      let ?accs = "filter (\<lambda>acc. acc_platform acc \<noteq> P) (u_connectedAccounts u0) @ [newAccount ad]"
      from find_id [OF u0] have "u0\<lparr>u_connectedAccounts := ?accs\<rparr> \<in> set (w_users w3)"
        unfolding users by (force simp del: filter_append)
      moreover from find_id [OF u0] have "u_id (u0\<lparr>u_connectedAccounts := ?accs\<rparr>) = i" by simp
      ultimately have ex: "\<exists>v \<in> set (w_users w3). u_id v = i" by blast
      have all: "\<forall>v \<in> set (w_users w3). u_id v = i \<longrightarrow> newAccount ad \<in> set (u_connectedAccounts v)"
      proof (intro ballI impI)
        fix v assume v: "v \<in> set (w_users w3)" "u_id v = i"
        from v(1) obtain z where "z \<in> set (w_users w2)"
          and "v = (if u_id z = i then z\<lparr>u_connectedAccounts := ?accs\<rparr> else z)"
          unfolding users by (auto simp del: filter_append)
        with v(2) have "u_connectedAccounts v = ?accs" by (cases "u_id z = i") simp_all
        then show "newAccount ad \<in> set (u_connectedAccounts v)" by simp
      qed
      from ex all show ?thesis unfolding w' by (intro conjI)
    qed
  qed
qed


text \<open>The run that ends in the \<open>catch\<close> with a successful save, and the run whose lookup throws.\<close>

lemma process_marked_posts:
  assumes ex: "run_exit (processScheduledPost e p w) = MarkedFailed"
  shows "w_posts (run_world (processScheduledPost e p w)) = setStatus (p_id p) Failed (w_posts w)"
proof -
  from User_findById_cases [of "p_user p" w] show ?thesis
  proof (elim disjE conjE)
    assume thr: "User_findById (p_user p) w = (Throw ''MongoError'', snd (dbCall w))"
    then have r: "processScheduledPost e p w = catchHandler p [] [] (snd (dbCall w))"
      by (simp add: processScheduledPost_def)
    from ex show ?thesis unfolding r
      using catchHandler_cases [of p "[]" "[]" "snd (dbCall w)"] by (auto simp: dbCall_fields)
  next
    assume ok: "User_findById (p_user p) w = (Ok (find (\<lambda>u. u_id u = p_user p) (w_users w)), snd (dbCall w))"
    show ?thesis
    proof (cases "find (\<lambda>u. u_id u = p_user p) (w_users w)")
      case None
      with ok ex show ?thesis by (simp add: processScheduledPost_def)
    next
      case (Some u)
      with ok have found: "User_findById (p_user p) w = (Ok (Some u), snd (dbCall w))" by simp
      from process_found_cases [OF found, of e] ex show ?thesis by auto
    qed
  qed
qed

lemma process_lookup_threw:
  assumes thr: "User_findById (p_user p) w = (Throw m, w1)"
  shows "run_exit (processScheduledPost e p w) = MarkedFailed
       \<or> run_exit (processScheduledPost e p w) = Rejected"
proof -
  from thr have r: "processScheduledPost e p w = catchHandler p [] [] w1"
    by (simp add: processScheduledPost_def)
  show ?thesis unfolding r using catchHandler_cases [of p "[]" "[]" w1] by auto
qed

lemma process_completed_found:
  assumes ex: "run_exit (processScheduledPost e p w) = Completed"
  shows "\<exists>u w1. User_findById (p_user p) w = (Ok (Some u), w1)"
proof -
  obtain x w1 where f: "User_findById (p_user p) w = (x, w1)" by (cases "User_findById (p_user p) w")
  show ?thesis
  proof (cases x)
    case (Throw m)
    with f process_lookup_threw [of p w m w1 e] ex show ?thesis by auto
  next
    case (Ok found)
    with f ex show ?thesis by (cases found) (auto simp: processScheduledPost_def)
  qed
qed

text \<open>The callback that stops at its first \<open>await\<close> and goes on later.\<close>

lemma linkAccount_resume:
  "linkAccount e P r i c w = resumeFlow e P r i c (awaitFlow P c w)"
  by (simp add: linkAccount_def resumeFlow_def awaitFlow_def Let_def)

lemma awaitFlow_fields:
  "w_processedCodes (awaitFlow P c w) = w_processedCodes w"
  "w_timers (awaitFlow P c w) = w_timers w"
  "w_users (awaitFlow P c w) = w_users w"
  "w_calls (awaitFlow P c w) = w_calls w @ [CompleteOAuthFlow P c]"
  "hasCode Q x (awaitFlow P c w) = hasCode Q x w"
  by (simp_all add: awaitFlow_def hasCode_def)

lemma resumeFlow_kept:
  "w_processedCodes (snd (resumeFlow e P r i c w)) = w_processedCodes w
   \<and> w_timers (snd (resumeFlow e P r i c w)) = w_timers w
   \<and> (\<exists>rest. w_calls (snd (resumeFlow e P r i c w)) = w_calls w @ rest)"
proof (cases "completeOAuthFlow e P c")
  case (Inl m)
  then show ?thesis by (simp add: resumeFlow_def)
next
  case (Inr ad)
  obtain x w2 where fb: "User_findById i w = (x, w2)" by (cases "User_findById i w")
  with User_findById_snd [of i w] have w2: "w2 = snd (dbCall w)" by simp
  have k2: "w_processedCodes w2 = w_processedCodes w" "w_timers w2 = w_timers w"
    "w_calls w2 = w_calls w"
    by (simp_all add: w2 dbCall_fields)
  show ?thesis
  proof (cases x)
    case (Throw m)
    with Inr fb k2 show ?thesis by (simp add: resumeFlow_def)
  next
    case (Ok found)
    let ?f = "case found of None \<Rightarrow> None | Some u \<Rightarrow> u_firebaseUid u"
    obtain y w3 where sv: "saveAccountToStorage e i P ad ?f w2 = (y, w3)"
      by (cases "saveAccountToStorage e i P ad ?f w2")
    from saveAccount_kept [of e i P ad ?f w2] sv k2
    obtain rest where k3: "w_processedCodes w3 = w_processedCodes w" "w_timers w3 = w_timers w"
      "w_calls w3 = w_calls w @ rest"
      by auto
    from Inr fb Ok sv k3 show ?thesis
      by (cases y) (simp_all add: resumeFlow_def Let_def)
  qed
qed

lemma recorded_cong:
  assumes "recorded P c d w"
    and "w_processedCodes v = w_processedCodes w" and "w_timers v = w_timers w"
  shows "recorded P c d v"
  using assms by (simp add: recorded_def hasCode_def)

lemma recorded_resume:
  assumes "recorded P c d w"
  shows "recorded P c d (snd (resumeFlow e Q r i x w))"
  using resumeFlow_kept [of e Q r i x w] by (intro recorded_cong [OF assms]) simp_all

lemma resumeFlow_success:
  assumes flow: "completeOAuthFlow e P c = Inr ad"
    and ok: "fst (resumeFlow e P r i c w) = successResponse P r ad"
  shows "(\<exists>v \<in> set (w_users (snd (resumeFlow e P r i c w))). u_id v = i)
       \<and> (\<forall>v \<in> set (w_users (snd (resumeFlow e P r i c w))). u_id v = i \<longrightarrow>
             newAccount ad \<in> set (u_connectedAccounts v))"
proof -
  obtain x w2 where fb: "User_findById i w = (x, w2)" by (cases "User_findById i w")
  show ?thesis
  proof (cases x)
    case (Throw m)
    with flow fb ok responses_differ [of P r m ad] show ?thesis by (simp add: resumeFlow_def)
  next
    case (Ok found)
    let ?f = "case found of None \<Rightarrow> None | Some u \<Rightarrow> u_firebaseUid u"
    obtain y w3 where sv: "saveAccountToStorage e i P ad ?f w2 = (y, w3)"
      by (cases "saveAccountToStorage e i P ad ?f w2")
    show ?thesis
    proof (cases y)
      case (Throw m)
      with flow fb Ok sv ok responses_differ [of P r m ad] show ?thesis
        by (simp add: resumeFlow_def Let_def)
    next
      case (Ok u)
      with sv have saved: "saveAccountToStorage e i P ad ?f w2 = (Ok (), w3)" by simp
      from flow fb \<open>x = Ok found\<close> sv have w': "snd (resumeFlow e P r i c w) = w3"
        by (cases y) (simp_all add: resumeFlow_def Let_def)
      from saveAccount_Ok [OF saved] obtain u0 where u0: "find (\<lambda>v. u_id v = i) (w_users w2) = Some u0"
        and users: "w_users w3 = map (\<lambda>v. if u_id v = i
            then v\<lparr>u_connectedAccounts :=
                    filter (\<lambda>acc. acc_platform acc \<noteq> P) (u_connectedAccounts u0) @ [newAccount ad]\<rparr>
            else v) (w_users w2)"
        by blast
      let ?accs = "filter (\<lambda>acc. acc_platform acc \<noteq> P) (u_connectedAccounts u0) @ [newAccount ad]"
      from find_id [OF u0] have "u0\<lparr>u_connectedAccounts := ?accs\<rparr> \<in> set (w_users w3)"
        unfolding users by (force simp del: filter_append)
      moreover from find_id [OF u0] have "u_id (u0\<lparr>u_connectedAccounts := ?accs\<rparr>) = i" by simp
      ultimately have ex: "\<exists>v \<in> set (w_users w3). u_id v = i" by blast
      have all: "\<forall>v \<in> set (w_users w3). u_id v = i \<longrightarrow> newAccount ad \<in> set (u_connectedAccounts v)"
      proof (intro ballI impI)
        fix v assume v: "v \<in> set (w_users w3)" "u_id v = i"
        from v(1) obtain z where "z \<in> set (w_users w2)"
          and "v = (if u_id z = i then z\<lparr>u_connectedAccounts := ?accs\<rparr> else z)"
          unfolding users by (auto simp del: filter_append)
        with v(2) have "u_connectedAccounts v = ?accs" by (cases "u_id z = i") simp_all
        then show "newAccount ad \<in> set (u_connectedAccounts v)" by simp
      qed
      from ex all show ?thesis unfolding w' by (intro conjI)
    qed
  qed
qed
section \<open>The terminal status of a job\<close>

text \<open>
  Claim C1, as amended. For a job that is stored: when the owner of the job is found and
  the save of line 152 succeeds (the run completes, which it does only when the owner was
  found), the stored status of the job is \<open>published\<close> if the pass of the loop for at
  least one of its platforms ended in a result, and \<open>failed\<close> if none did (every platform
  got an error entry, or there was no platform to publish to). When the \<open>catch\<close> of lines
  156-161 runs, because the lookup of the owner threw or because the save of line 152
  threw, and its own save succeeds, the stored status is \<open>failed\<close>, whatever the platforms
  answered. A lookup of the owner that throws always ends in that \<open>catch\<close>: the run ends
  with the job marked failed or, when the save of the \<open>catch\<close> throws too, rejected.
\<close>

theorem status_rule:
  assumes stored: "storedStatus (p_id p) w \<noteq> None"
  shows "(User_findById (p_user p) w = (Ok (Some u), w1) \<longrightarrow>
          run_exit (processScheduledPost e p w) = Completed \<longrightarrow>
            storedStatus (p_id p) (run_world (processScheduledPost e p w))
              = Some (if \<exists>n \<in> set (platformsOf p). attemptOk e u p n then Published else Failed))
       \<and> (run_exit (processScheduledPost e p w) = Completed \<longrightarrow>
            (\<exists>v w'. User_findById (p_user p) w = (Ok (Some v), w')))
       \<and> (run_exit (processScheduledPost e p w) = MarkedFailed \<longrightarrow>
            storedStatus (p_id p) (run_world (processScheduledPost e p w)) = Some Failed)
       \<and> (User_findById (p_user p) w = (Throw m, w2) \<longrightarrow>
            run_exit (processScheduledPost e p w) = MarkedFailed
            \<or> run_exit (processScheduledPost e p w) = Rejected)"
proof -
  from stored obtain q where q: "find (\<lambda>q. p_id q = p_id p) (w_posts w) = Some q"
    by (auto simp: storedStatus_def)
  have upd: "\<And>st w'. w_posts w' = setStatus (p_id p) st (w_posts w) \<Longrightarrow> storedStatus (p_id p) w' = Some st"
    by (simp add: storedStatus_def find_setStatus q)
  have a: "User_findById (p_user p) w = (Ok (Some u), w1) \<longrightarrow>
          run_exit (processScheduledPost e p w) = Completed \<longrightarrow>
            storedStatus (p_id p) (run_world (processScheduledPost e p w))
              = Some (if \<exists>n \<in> set (platformsOf p). attemptOk e u p n then Published else Failed)"
  proof (intro impI)
    assume found: "User_findById (p_user p) w = (Ok (Some u), w1)"
      and ex: "run_exit (processScheduledPost e p w) = Completed"
    from process_found_cases [OF found, of e] ex
    show "storedStatus (p_id p) (run_world (processScheduledPost e p w))
              = Some (if \<exists>n \<in> set (platformsOf p). attemptOk e u p n then Published else Failed)"
      by (elim disjE conjE) (simp_all add: upd)
  qed
  have b: "run_exit (processScheduledPost e p w) = Completed \<longrightarrow>
            (\<exists>v w'. User_findById (p_user p) w = (Ok (Some v), w'))"
    using process_completed_found [of e p w] by blast
  have c: "run_exit (processScheduledPost e p w) = MarkedFailed \<longrightarrow>
            storedStatus (p_id p) (run_world (processScheduledPost e p w)) = Some Failed"
    using process_marked_posts [of e p w] by (simp add: upd)
  have d: "User_findById (p_user p) w = (Throw m, w2) \<longrightarrow>
            run_exit (processScheduledPost e p w) = MarkedFailed
            \<or> run_exit (processScheduledPost e p w) = Rejected"
    using process_lookup_threw [of p w m w2 e] by blast
  from a b c d show ?thesis by (intro conjI)
qed


text \<open>
  Two instances. Facebook succeeds, Instagram throws, both database calls succeed, and
  the job is stored as \<open>published\<close>. The lookup of the owner throws, no platform is
  called, the save of the \<open>catch\<close> succeeds, and the job is stored as \<open>failed\<close>.
\<close>

theorem status_rule_witness:
  "User_findById (p_user (job 3 7 [''facebook'', ''instagram''] 5))
       (demoWorld [job 3 7 [''facebook'', ''instagram''] 5] [])
     = (Ok (Some alice), demoWorld [job 3 7 [''facebook'', ''instagram''] 5] [])
   \<and> storedStatus 3 (demoWorld [job 3 7 [''facebook'', ''instagram''] 5] []) = Some Scheduled
   \<and> attemptOk envFacebookOnly alice (job 3 7 [''facebook'', ''instagram''] 5) ''facebook''
   \<and> \<not> attemptOk envFacebookOnly alice (job 3 7 [''facebook'', ''instagram''] 5) ''instagram''
   \<and> run_exit (processScheduledPost envFacebookOnly (job 3 7 [''facebook'', ''instagram''] 5)
         (demoWorld [job 3 7 [''facebook'', ''instagram''] 5] [])) = Completed
   \<and> storedStatus 3 (run_world (processScheduledPost envFacebookOnly (job 3 7 [''facebook'', ''instagram''] 5)
         (demoWorld [job 3 7 [''facebook'', ''instagram''] 5] []))) = Some Published
   \<and> User_findById (p_user (job 3 7 [''facebook'', ''instagram''] 5))
       (demoWorld [job 3 7 [''facebook'', ''instagram''] 5] [True])
     = (Throw ''MongoError'', demoWorld [job 3 7 [''facebook'', ''instagram''] 5] [])
   \<and> storedStatus 3 (demoWorld [job 3 7 [''facebook'', ''instagram''] 5] [True]) = Some Scheduled
   \<and> run_exit (processScheduledPost envFacebookOnly (job 3 7 [''facebook'', ''instagram''] 5)
         (demoWorld [job 3 7 [''facebook'', ''instagram''] 5] [True])) = MarkedFailed
   \<and> w_calls (run_world (processScheduledPost envFacebookOnly (job 3 7 [''facebook'', ''instagram''] 5)
         (demoWorld [job 3 7 [''facebook'', ''instagram''] 5] [True]))) = []
   \<and> storedStatus 3 (run_world (processScheduledPost envFacebookOnly (job 3 7 [''facebook'', ''instagram''] 5)
         (demoWorld [job 3 7 [''facebook'', ''instagram''] 5] [True]))) = Some Failed"
proof -
  let ?j = "job 3 7 [''facebook'', ''instagram''] 5"
  let ?w = "demoWorld [?j] []"
  let ?wt = "demoWorld [?j] [True]"
  have found: "User_findById (p_user ?j) ?w = (Ok (Some alice), ?w)"
    by (simp add: demo_defs User_findById_def dbCall_def)
  have stored: "storedStatus (p_id ?j) ?w \<noteq> None"
    by (simp add: demo_defs storedStatus_def)
  have fb: "attemptOk envFacebookOnly alice ?j ''facebook''"
    by (simp add: attemptOk_def activeAccount_def demo_defs run_defs)
  have ig: "\<not> attemptOk envFacebookOnly alice ?j ''instagram''"
    by (simp add: attemptOk_def activeAccount_def demo_defs run_defs)
  have ex: "run_exit (processScheduledPost envFacebookOnly ?j ?w) = Completed"
    by (simp add: demo_defs run_defs)
  have ps: "platformsOf ?j = [''facebook'', ''instagram'']" by (simp add: platformsOf_def job_def)
  from status_rule [OF stored, of alice ?w envFacebookOnly] found ex fb ps
  have one: "storedStatus (p_id ?j) (run_world (processScheduledPost envFacebookOnly ?j ?w)) = Some Published"
    by simp
  have thr: "User_findById (p_user ?j) ?wt = (Throw ''MongoError'', ?w)"
    by (simp add: demo_defs User_findById_def dbCall_def)
  have stored': "storedStatus (p_id ?j) ?wt \<noteq> None"
    by (simp add: demo_defs storedStatus_def)
  have ex': "run_exit (processScheduledPost envFacebookOnly ?j ?wt) = MarkedFailed"
    by (simp add: demo_defs run_defs)
  have calls': "w_calls (run_world (processScheduledPost envFacebookOnly ?j ?wt)) = []"
    by (simp add: demo_defs run_defs)
  from status_rule [OF stored', of alice ?w envFacebookOnly] ex'
  have two: "storedStatus (p_id ?j) (run_world (processScheduledPost envFacebookOnly ?j ?wt)) = Some Failed"
    by simp
  have s0: "storedStatus 3 ?w = Some Scheduled" "storedStatus 3 ?wt = Some Scheduled"
    by (simp_all add: demo_defs storedStatus_def)
  have id: "p_id ?j = 3" by (simp add: job_def)
  from one two s0 found fb ig ex thr ex' calls' show ?thesis unfolding id by (intro conjI)
qed


text \<open>
  Claim C1 as it is stated fails when the save of line 152 throws and the save of the
  \<open>catch\<close> succeeds: the publish to Facebook succeeded, and the stored status is \<open>failed\<close>.
\<close>

theorem status_rule_counterexample:
  "attemptOk envOk alice (job 1 7 [''facebook''] 5) ''facebook''
   \<and> map r_platform (run_results (processScheduledPost envOk (job 1 7 [''facebook''] 5)
          (demoWorld [job 1 7 [''facebook''] 5] [False, True, False]))) = [''facebook'']
   \<and> storedStatus 1 (run_world (processScheduledPost envOk (job 1 7 [''facebook''] 5)
          (demoWorld [job 1 7 [''facebook''] 5] [False, True, False]))) = Some Failed"
  by (simp add: attemptOk_def activeAccount_def storedStatus_def demo_defs run_defs)

section \<open>Selection and the status of a job\<close>

text \<open>
  Claim C2, as amended. The query of the job selector is a read: it leaves the stored
  posts as they are and makes no transition of status; every job it returns is stored
  with status \<open>scheduled\<close>. The only write of \<open>processScheduledPost\<close> to the posts is the
  status \<open>published\<close> or \<open>failed\<close> of the job it processes, and after a run that saved,
  every stored post of that identifier has one of these two statuses. In any world,
  however it came about, a job none of whose stored posts has status \<open>scheduled\<close> keeps
  that property through any runs of the scheduler and is returned by no selection after
  them: the scheduler never stores \<open>scheduled\<close>, so a processed job is not selected again
  for as long as nothing else stores \<open>scheduled\<close> for it.
\<close>

theorem selector_no_claim:
  "w_posts (snd (Post_find now w)) = w_posts w
   \<and> (\<forall>q \<in> set (batchOf (Post_find now w)). q \<in> set (w_posts w) \<and> p_status q = Scheduled)
   \<and> w_posts (run_world (processScheduledPost e p w))
        \<in> {w_posts w, setStatus (p_id p) Published (w_posts w), setStatus (p_id p) Failed (w_posts w)}
   \<and> (run_exit (processScheduledPost e p w) = Completed
        \<or> run_exit (processScheduledPost e p w) = MarkedFailed \<longrightarrow>
       (\<forall>q \<in> set (w_posts (run_world (processScheduledPost e p w))).
          p_id q = p_id p \<longrightarrow> p_status q = Published \<or> p_status q = Failed)
       \<and> (\<forall>q \<in> set (batchOf (Post_find now'
                      (schedulerTicks e' nows (run_world (processScheduledPost e p w))))).
          p_id q \<noteq> p_id p))
   \<and> ((\<forall>q \<in> set (w_posts w'). p_id q = i \<longrightarrow> p_status q \<noteq> Scheduled) \<longrightarrow>
       (\<forall>q \<in> set (w_posts (schedulerTicks e' nows w')). p_id q = i \<longrightarrow> p_status q \<noteq> Scheduled)
       \<and> (\<forall>q \<in> set (batchOf (Post_find now' (schedulerTicks e' nows w'))). p_id q \<noteq> i))"
proof -
  have sel: "\<And>t (v::world) q. q \<in> set (batchOf (Post_find t v)) \<Longrightarrow> q \<in> set (w_posts v) \<and> p_status q = Scheduled"
  proof -
    fix t and v :: world and q assume q: "q \<in> set (batchOf (Post_find t v))"
    from batchOf_cases [of t v] q
    have "q \<in> set (take 10 (filter (isDue t) (w_posts v)))" by auto
    from due_batch_member [OF this] show "q \<in> set (w_posts v) \<and> p_status q = Scheduled" by simp
  qed
  have a: "\<forall>q \<in> set (batchOf (Post_find now w)). q \<in> set (w_posts w) \<and> p_status q = Scheduled"
    using sel by blast
  have gen: "\<And>(v::world) j. \<forall>q \<in> set (w_posts v). p_id q = j \<longrightarrow> p_status q \<noteq> Scheduled \<Longrightarrow>
       (\<forall>q \<in> set (w_posts (schedulerTicks e' nows v)). p_id q = j \<longrightarrow> p_status q \<noteq> Scheduled)
       \<and> (\<forall>q \<in> set (batchOf (Post_find now' (schedulerTicks e' nows v))). p_id q \<noteq> j)"
  proof -
    fix v :: world and j assume off: "\<forall>q \<in> set (w_posts v). p_id q = j \<longrightarrow> p_status q \<noteq> Scheduled"
    note off' = off_ticks [OF off, of e' nows]
    have "\<forall>q \<in> set (batchOf (Post_find now' (schedulerTicks e' nows v))). p_id q \<noteq> j"
    proof
      fix q assume "q \<in> set (batchOf (Post_find now' (schedulerTicks e' nows v)))"
      from sel [OF this] off' show "p_id q \<noteq> j" by blast
    qed
    with off' show "(\<forall>q \<in> set (w_posts (schedulerTicks e' nows v)). p_id q = j \<longrightarrow> p_status q \<noteq> Scheduled)
       \<and> (\<forall>q \<in> set (batchOf (Post_find now' (schedulerTicks e' nows v))). p_id q \<noteq> j)"
      by (intro conjI)
  qed
  have c: "run_exit (processScheduledPost e p w) = Completed
        \<or> run_exit (processScheduledPost e p w) = MarkedFailed \<longrightarrow>
       (\<forall>q \<in> set (w_posts (run_world (processScheduledPost e p w))).
          p_id q = p_id p \<longrightarrow> p_status q = Published \<or> p_status q = Failed)
       \<and> (\<forall>q \<in> set (batchOf (Post_find now'
                      (schedulerTicks e' nows (run_world (processScheduledPost e p w))))).
          p_id q \<noteq> p_id p)"
  proof
    assume ex: "run_exit (processScheduledPost e p w) = Completed
        \<or> run_exit (processScheduledPost e p w) = MarkedFailed"
    let ?w' = "run_world (processScheduledPost e p w)"
    from process_exit_posts [OF ex]
    have fin: "\<forall>q \<in> set (w_posts ?w'). p_id q = p_id p \<longrightarrow> p_status q = Published \<or> p_status q = Failed"
      by (auto simp: setStatus_def)
    then have off: "\<forall>q \<in> set (w_posts ?w'). p_id q = p_id p \<longrightarrow> p_status q \<noteq> Scheduled"
      by auto
    from gen [OF off] fin
    show "(\<forall>q \<in> set (w_posts ?w'). p_id q = p_id p \<longrightarrow> p_status q = Published \<or> p_status q = Failed)
       \<and> (\<forall>q \<in> set (batchOf (Post_find now' (schedulerTicks e' nows ?w'))). p_id q \<noteq> p_id p)"
      by (intro conjI) simp_all
  qed
  have d: "(\<forall>q \<in> set (w_posts w'). p_id q = i \<longrightarrow> p_status q \<noteq> Scheduled) \<longrightarrow>
       (\<forall>q \<in> set (w_posts (schedulerTicks e' nows w')). p_id q = i \<longrightarrow> p_status q \<noteq> Scheduled)
       \<and> (\<forall>q \<in> set (batchOf (Post_find now' (schedulerTicks e' nows w'))). p_id q \<noteq> i)"
    using gen [of w' i] by (intro impI)
  from Post_find_posts [of now w] a process_posts_cases [of e p w] c d show ?thesis by (intro conjI)
qed

text \<open>
  Two instances. A due job is selected, published, and not selected at the next minute.
  A job stored as \<open>published\<close> stays so and is not selected while two runs of the scheduler
  process another job.
\<close>

theorem selector_no_claim_witness:
  "job 1 7 [''facebook''] 5 \<in> set (batchOf (Post_find 10 (demoWorld [job 1 7 [''facebook''] 5] [])))
   \<and> p_status (job 1 7 [''facebook''] 5) = Scheduled
   \<and> run_exit (processScheduledPost envOk (job 1 7 [''facebook''] 5)
        (demoWorld [job 1 7 [''facebook''] 5] [])) = Completed
   \<and> w_posts (run_world (processScheduledPost envOk (job 1 7 [''facebook''] 5)
        (demoWorld [job 1 7 [''facebook''] 5] [])))
       = [(job 1 7 [''facebook''] 5)\<lparr>p_status := Published\<rparr>]
   \<and> (job 1 7 [''facebook''] 5)\<lparr>p_status := Published\<rparr>
        \<notin> set (batchOf (Post_find 60010 (schedulerTicks envOk []
          (run_world (processScheduledPost envOk (job 1 7 [''facebook''] 5)
             (demoWorld [job 1 7 [''facebook''] 5] []))))))
   \<and> w_posts (schedulerTicks envFail [60010, 120010]
        (demoWorld [(job 1 7 [''facebook''] 5)\<lparr>p_status := Published\<rparr>, job 2 7 [''facebook''] 5] []))
       = [(job 1 7 [''facebook''] 5)\<lparr>p_status := Published\<rparr>, (job 2 7 [''facebook''] 5)\<lparr>p_status := Failed\<rparr>]
   \<and> (job 1 7 [''facebook''] 5)\<lparr>p_status := Published\<rparr>
        \<notin> set (batchOf (Post_find 180010 (schedulerTicks envFail [60010, 120010]
          (demoWorld [(job 1 7 [''facebook''] 5)\<lparr>p_status := Published\<rparr>, job 2 7 [''facebook''] 5] []))))"
proof -
  let ?j = "job 1 7 [''facebook''] 5"
  let ?w = "demoWorld [?j] []"
  let ?d = "?j\<lparr>p_status := Published\<rparr>"
  let ?v = "demoWorld [?d, job 2 7 [''facebook''] 5] []"
  have m: "?j \<in> set (batchOf (Post_find 10 ?w))"
    by (simp add: demo_defs batchOf_def Post_find_def dbCall_def isDue_def)
  have st: "p_status ?j = Scheduled" by (simp add: job_def)
  have ex: "run_exit (processScheduledPost envOk ?j ?w) = Completed"
    by (simp add: demo_defs run_defs)
  have posts: "w_posts (run_world (processScheduledPost envOk ?j ?w)) = [?j\<lparr>p_status := Published\<rparr>]"
    by (simp add: demo_defs run_defs)
  have same: "p_id (?j\<lparr>p_status := Published\<rparr>) = p_id ?j" by simp
  note th = selector_no_claim [of 10 ?w envOk ?j 60010 envOk "[]" ?v 1]
  from th ex same
  have one: "?j\<lparr>p_status := Published\<rparr>
        \<notin> set (batchOf (Post_find 60010 (schedulerTicks envOk [] (run_world (processScheduledPost envOk ?j ?w)))))"
    by blast
  have off: "\<forall>q \<in> set (w_posts ?v). p_id q = 1 \<longrightarrow> p_status q \<noteq> Scheduled"
    by (simp add: demo_defs)
  have idd: "p_id ?d = 1" by (simp add: job_def)
  note th2 = selector_no_claim [of 10 ?w envOk ?j 180010 envFail "[60010, 120010]" ?v 1]
  from th2 off idd
  have two: "?d \<notin> set (batchOf (Post_find 180010 (schedulerTicks envFail [60010, 120010] ?v)))"
    by blast
  have ticks: "w_posts (schedulerTicks envFail [60010, 120010] ?v)
       = [?d, (job 2 7 [''facebook''] 5)\<lparr>p_status := Failed\<rparr>]"
    by (simp add: checkScheduledPosts_def Post_find_def isDue_def demo_defs run_defs)
  from m st ex posts one ticks two show ?thesis by (intro conjI)
qed

text \<open>
  Claim C2 as it is stated fails: two selections, the second before the first has saved
  anything, both return the job, and the two runs publish it to Facebook twice.
\<close>

theorem overlapping_ticks_counterexample:
  "job 1 7 [''facebook''] 5 \<in> set (batchOf (Post_find 10 (demoWorld [job 1 7 [''facebook''] 5] [])))
   \<and> job 1 7 [''facebook''] 5
        \<in> set (batchOf (Post_find 10 (snd (Post_find 10 (demoWorld [job 1 7 [''facebook''] 5] [])))))
   \<and> w_calls (run_world (processScheduledPost envOk (job 1 7 [''facebook''] 5)
        (run_world (processScheduledPost envOk (job 1 7 [''facebook''] 5)
           (snd (Post_find 10 (snd (Post_find 10 (demoWorld [job 1 7 [''facebook''] 5] [])))))))))
     = [GetUserPages ''tok'', PostToPage ''ptok'' ''pg1'' ''hello'' None,
        GetUserPages ''tok'', PostToPage ''ptok'' ''pg1'' ''hello'' None]"
  by (simp add: batchOf_def Post_find_def isDue_def demo_defs run_defs)

section \<open>One outcome for every platform\<close>





section \<open>Platforms without a usable account\<close>

text \<open>
  Claim C4, as amended. For a platform of the job for which the owner has no active
  connected account (none of that platform, or only inactive ones), the loop pushes the
  error \<open>Account not connected or inactive\<close> for that platform, makes no remote call
  for it, and goes on: the remote calls of the run are those of the passes for all the
  platforms, and every platform has its entry. The field \<open>expiresAt\<close> is not read:
  changing it in any way changes neither the entries nor the calls of any pass.
\<close>

theorem missing_account_outcome:
  assumes found: "User_findById (p_user p) w = (Ok (Some u), w1)"
    and n: "n \<in> set (platformsOf p)" and notall: "n \<noteq> ''all''"
    and missing: "activeAccount u n = None"
  shows "\<lparr>e_platform = n, e_error = ''Account not connected or inactive''\<rparr>
           \<in> set (run_errors (processScheduledPost e p w))
       \<and> oneResults e u p n = [] \<and> oneCalls e u p n = []
       \<and> w_calls (run_world (processScheduledPost e p w))
           = w_calls w @ concat (map (oneCalls e u p) (platformsOf p))
       \<and> mset (map r_platform (run_results (processScheduledPost e p w)))
           + mset (map e_platform (run_errors (processScheduledPost e p w)))
         = mset (filter (\<lambda>n. n \<noteq> ''all'') (platformsOf p))
       \<and> publishOne e (u\<lparr>u_connectedAccounts :=
                            map (\<lambda>a. a\<lparr>acc_expiresAt := f a\<rparr>) (u_connectedAccounts u)\<rparr>) p m
           = publishOne e u p m"
proof -
  have "\<lparr>e_platform = n, e_error = ''Account not connected or inactive''\<rparr>
          \<in> set (concat (map (oneErrors e u p) (platformsOf p)))"
    using n oneErrors_missing(1) [OF notall missing, of e p] by (auto intro!: bexI [of _ n])
  then have a: "\<lparr>e_platform = n, e_error = ''Account not connected or inactive''\<rparr>
           \<in> set (run_errors (processScheduledPost e p w))"
    by (simp only: process_found_lists [OF found])
  have d: "mset (map r_platform (run_results (processScheduledPost e p w)))
           + mset (map e_platform (run_errors (processScheduledPost e p w)))
         = mset (filter (\<lambda>n. n \<noteq> ''all'') (platformsOf p))"
    by (simp only: process_found_lists [OF found] publishLoop_platforms)
  from a oneErrors_missing(2,3) [OF notall missing, of e p] process_found_calls [OF found, of e] d
    publishOne_expiresAt [of e f u p m]
  show ?thesis by (intro conjI)
qed

text \<open>
  An instance: no Pinterest account, so the error is pushed without a call, and the pass
  for Facebook still makes its two calls.
\<close>

theorem missing_account_outcome_witness:
  "User_findById (p_user (job 5 7 [''pinterest'', ''facebook''] 5))
       (demoWorld [job 5 7 [''pinterest'', ''facebook''] 5] [])
     = (Ok (Some alice), demoWorld [job 5 7 [''pinterest'', ''facebook''] 5] [])
   \<and> ''pinterest'' \<in> set (platformsOf (job 5 7 [''pinterest'', ''facebook''] 5))
   \<and> activeAccount alice ''pinterest'' = None
   \<and> \<lparr>e_platform = ''pinterest'', e_error = ''Account not connected or inactive''\<rparr>
        \<in> set (run_errors (processScheduledPost envOk (job 5 7 [''pinterest'', ''facebook''] 5)
                  (demoWorld [job 5 7 [''pinterest'', ''facebook''] 5] [])))
   \<and> oneCalls envOk alice (job 5 7 [''pinterest'', ''facebook''] 5) ''pinterest'' = []
   \<and> w_calls (run_world (processScheduledPost envOk (job 5 7 [''pinterest'', ''facebook''] 5)
                  (demoWorld [job 5 7 [''pinterest'', ''facebook''] 5] [])))
       = [GetUserPages ''tok'', PostToPage ''ptok'' ''pg1'' ''hello'' None]"
proof -
  let ?j = "job 5 7 [''pinterest'', ''facebook''] 5"
  let ?w = "demoWorld [?j] []"
  have found: "User_findById (p_user ?j) ?w = (Ok (Some alice), ?w)"
    by (simp add: demo_defs User_findById_def dbCall_def)
  have n: "''pinterest'' \<in> set (platformsOf ?j)" by (simp add: platformsOf_def job_def)
  have notall: "''pinterest'' \<noteq> ''all''" by simp
  have missing: "activeAccount alice ''pinterest'' = None"
    by (simp add: activeAccount_def demo_defs toLowerCase_def lowerChar_def)
  have calls: "w_calls (run_world (processScheduledPost envOk ?j ?w))
       = [GetUserPages ''tok'', PostToPage ''ptok'' ''pg1'' ''hello'' None]"
    by (simp add: demo_defs run_defs)
  from missing_account_outcome [OF found n notall missing, of envOk] found n missing calls
  show ?thesis by simp
qed

text \<open>
  Claim C4 as it is stated fails for a credential past its \<open>expiresAt\<close>: the Facebook
  token expired at time 0, the job is selected at time 10, and the Facebook service is
  called with that token; no error is recorded.
\<close>

theorem expired_credential_counterexample:
  "activeAccount alice ''facebook'' = Some (demoAccount ''facebook'')
   \<and> acc_expiresAt (demoAccount ''facebook'') = Some 0
   \<and> batchOf (Post_find 10 (demoWorld [job 6 7 [''facebook''] 5] [])) = [job 6 7 [''facebook''] 5]
   \<and> w_calls (run_world (processScheduledPost envOk (job 6 7 [''facebook''] 5)
                  (demoWorld [job 6 7 [''facebook''] 5] [])))
       = [GetUserPages ''tok'', PostToPage ''ptok'' ''pg1'' ''hello'' None]
   \<and> run_errors (processScheduledPost envOk (job 6 7 [''facebook''] 5)
                  (demoWorld [job 6 7 [''facebook''] 5] [])) = []
   \<and> storedStatus 6 (run_world (processScheduledPost envOk (job 6 7 [''facebook''] 5)
                  (demoWorld [job 6 7 [''facebook''] 5] []))) = Some Published"
  by (simp add: activeAccount_def storedStatus_def batchOf_def Post_find_def isDue_def demo_defs run_defs)
section \<open>Duplicate OAuth callbacks\<close>

text \<open>
  Claim C5, as amended. In a world that the callbacks can reach, take a request with a
  code and a decodable state whose code is not in the set of its platform when it
  arrives at time \<open>t0\<close>. The callback then records the code, sets the timer and calls
  \<open>completeOAuthFlow\<close>; there it waits, with the users as they were. Whatever callbacks
  arrive before \<open>t0 + retention\<close> (5 minutes) while it waits, it goes on from the answer
  of the service, and when it answers with success the new account is in the list of
  the user. A request with the same code for the same platform that arrives before
  \<open>t0 + retention\<close> is answered \<open>Already connected\<close> with no remote call and no change
  of the users, both while the first callback is still waiting and after it has
  finished and any further callbacks have arrived before \<open>t0 + retention\<close>; one that
  arrives at \<open>t0 + retention\<close> or later finds the code deleted and runs the linking flow
  again.
\<close>

theorem callback_idempotent:
  assumes inv: "timersInv w0"
    and r: "wellFormed e r code userId" and r': "wellFormed e r' code userId'"
    and first: "\<not> hasCode platform code (fireTimers t0 w0)"
    and armed: "armed = setTimeout (t0 + retention) platform code (addCode platform code (fireTimers t0 w0))"
    and evs0: "list_all (\<lambda>ev. fst ev < t0 + retention) evs0"
    and wa: "wa = deliverAll e evs0 (awaitFlow platform code armed)"
    and w1: "w1 = snd (resumeFlow e platform r userId code wa)"
    and evs: "list_all (\<lambda>ev. fst ev < t0 + retention) evs"
    and w2: "w2 = deliverAll e evs w1"
  shows "deliver e platform t0 r w0 = linkAccount e platform r userId code armed
       \<and> linkAccount e platform r userId code armed
           = resumeFlow e platform r userId code (awaitFlow platform code armed)
       \<and> w_users (awaitFlow platform code armed) = w_users w0
       \<and> w_calls (awaitFlow platform code armed) = w_calls w0 @ [CompleteOAuthFlow platform code]
       \<and> hasCode platform code (awaitFlow platform code armed)
       \<and> hasCode platform code wa
       \<and> hasCode platform code w1
       \<and> (\<forall>ad. completeOAuthFlow e platform code = Inr ad \<longrightarrow>
                fst (resumeFlow e platform r userId code wa) = successResponse platform r ad \<longrightarrow>
                (\<exists>v \<in> set (w_users w1). u_id v = userId)
                \<and> (\<forall>v \<in> set (w_users w1). u_id v = userId \<longrightarrow>
                       newAccount ad \<in> set (u_connectedAccounts v)))
       \<and> (t1 < t0 + retention \<longrightarrow>
            deliver e platform t1 r' wa = (SuccessHTML platform ''Already connected'', fireTimers t1 wa)
            \<and> w_users (fireTimers t1 wa) = w_users wa
            \<and> w_calls (fireTimers t1 wa) = w_calls wa
            \<and> deliver e platform t1 r' w2 = (SuccessHTML platform ''Already connected'', fireTimers t1 w2)
            \<and> w_users (fireTimers t1 w2) = w_users w2
            \<and> w_calls (fireTimers t1 w2) = w_calls w2)
       \<and> (t0 + retention \<le> t2 \<longrightarrow>
            \<not> hasCode platform code (fireTimers t2 w2)
            \<and> deliver e platform t2 r' w2
                 = linkAccount e platform r' userId' code
                     (setTimeout (t2 + retention) platform code (addCode platform code (fireTimers t2 w2)))
            \<and> (\<exists>rest. w_calls (snd (deliver e platform t2 r' w2))
                         = w_calls w2 @ CompleteOAuthFlow platform code # rest))"
proof -
  let ?f0 = "fireTimers t0 w0"
  let ?d = "t0 + retention"
  let ?a0 = "awaitFlow platform code armed"
  have d0: "deliver e platform t0 r w0 = linkAccount e platform r userId code armed"
    using first by (simp add: deliver_def callback_wellFormed [OF r] armed)
  note split = linkAccount_resume [of e platform r userId code armed]
  have us: "w_users ?a0 = w_users w0"
    by (simp add: awaitFlow_fields armed arm_fields fireTimers_fields)
  have cs: "w_calls ?a0 = w_calls w0 @ [CompleteOAuthFlow platform code]"
    by (simp add: awaitFlow_fields armed arm_fields fireTimers_fields)
  \<comment> \<open>from the first \<open>await\<close> on the code is recorded with its one timer\<close>
  from timersInv_fire [OF inv, of t0] first
  have none: "(platform, code) \<notin> snd ` set (w_timers ?f0)"
    by (auto simp: timersInv_def list_all_iff)
  have rec0: "recorded platform code ?d ?a0"
    unfolding recorded_def awaitFlow_fields armed arm_fields using none by (force simp: list_all_iff)
  have reca: "recorded platform code ?d wa"
    unfolding wa by (rule recorded_deliverAll [OF rec0 evs0])
  have rec1: "recorded platform code ?d w1"
    unfolding w1 by (rule recorded_resume [OF reca])
  have rec2: "recorded platform code ?d w2"
    unfolding w2 by (rule recorded_deliverAll [OF rec1 evs])
  have h0: "hasCode platform code ?a0" using rec0 by (simp add: recorded_def)
  have ha: "hasCode platform code wa" using reca by (simp add: recorded_def)
  have h1: "hasCode platform code w1" using rec1 by (simp add: recorded_def)
  have c: "\<forall>ad. completeOAuthFlow e platform code = Inr ad \<longrightarrow>
                fst (resumeFlow e platform r userId code wa) = successResponse platform r ad \<longrightarrow>
                (\<exists>v \<in> set (w_users w1). u_id v = userId)
                \<and> (\<forall>v \<in> set (w_users w1). u_id v = userId \<longrightarrow>
                       newAccount ad \<in> set (u_connectedAccounts v))"
    unfolding w1 using resumeFlow_success [of e platform code _ r userId wa] by blast
  have again: "\<And>v. recorded platform code ?d v \<Longrightarrow> t1 < ?d \<Longrightarrow>
      deliver e platform t1 r' v = (SuccessHTML platform ''Already connected'', fireTimers t1 v)
      \<and> w_users (fireTimers t1 v) = w_users v \<and> w_calls (fireTimers t1 v) = w_calls v"
  proof -
    fix v :: world assume rv: "recorded platform code ?d v" and t1: "t1 < ?d"
    from recorded_fire [OF rv t1] have "hasCode platform code (fireTimers t1 v)"
      by (simp add: recorded_def)
    then show "deliver e platform t1 r' v = (SuccessHTML platform ''Already connected'', fireTimers t1 v)
      \<and> w_users (fireTimers t1 v) = w_users v \<and> w_calls (fireTimers t1 v) = w_calls v"
      by (simp add: deliver_def callback_wellFormed [OF r'] fireTimers_fields)
  qed
  have dup: "t1 < ?d \<longrightarrow>
            deliver e platform t1 r' wa = (SuccessHTML platform ''Already connected'', fireTimers t1 wa)
            \<and> w_users (fireTimers t1 wa) = w_users wa
            \<and> w_calls (fireTimers t1 wa) = w_calls wa
            \<and> deliver e platform t1 r' w2 = (SuccessHTML platform ''Already connected'', fireTimers t1 w2)
            \<and> w_users (fireTimers t1 w2) = w_users w2
            \<and> w_calls (fireTimers t1 w2) = w_calls w2"
    using again [OF reca] again [OF rec2] by blast
  have late: "t0 + retention \<le> t2 \<longrightarrow>
            \<not> hasCode platform code (fireTimers t2 w2)
            \<and> deliver e platform t2 r' w2
                 = linkAccount e platform r' userId' code
                     (setTimeout (t2 + retention) platform code (addCode platform code (fireTimers t2 w2)))
            \<and> (\<exists>rest. w_calls (snd (deliver e platform t2 r' w2))
                         = w_calls w2 @ CompleteOAuthFlow platform code # rest)"
  proof
    assume t2: "t0 + retention \<le> t2"
    let ?f2 = "fireTimers t2 w2"
    let ?armed2 = "setTimeout (t2 + retention) platform code (addCode platform code ?f2)"
    from rec2 have "(t0 + retention, platform, code) \<in> set (w_timers w2)" by (simp add: recorded_def)
    with t2 have "(platform, code) \<in> snd ` set (filter (\<lambda>x. fst x \<le> t2) (w_timers w2))"
      by force
    then have gone: "\<not> hasCode platform code ?f2" by (simp add: hasCode_fireTimers)
    then have d2: "deliver e platform t2 r' w2 = linkAccount e platform r' userId' code ?armed2"
      by (simp add: deliver_def callback_wellFormed [OF r'])
    from linkAccount_kept [of e platform r' userId' code ?armed2]
    have "\<exists>rest. w_calls (snd (deliver e platform t2 r' w2))
                         = w_calls w2 @ CompleteOAuthFlow platform code # rest"
      unfolding d2 by (simp add: arm_fields fireTimers_fields)
    with gone d2 show "\<not> hasCode platform code ?f2
            \<and> deliver e platform t2 r' w2 = linkAccount e platform r' userId' code ?armed2
            \<and> (\<exists>rest. w_calls (snd (deliver e platform t2 r' w2))
                         = w_calls w2 @ CompleteOAuthFlow platform code # rest)"
      by (intro conjI)
  qed
  from d0 split us cs h0 ha h1 c dup late show ?thesis by (intro conjI)
qed

text \<open>
  An instance: the code arrives at time 1000 with the state that \<open>generateState\<close> made
  for the user. While the callback waits for the service the code arrives again at
  1200 and at 1500 and is answered \<open>Already connected\<close>, with no other call and the
  user unchanged; the callback goes on and links the account. After a callback for
  Instagram with the same code and one for Facebook with another code, the code arrives
  again at 300999 and is answered \<open>Already connected\<close>; at 301000 it is no longer in the
  set.
\<close>

theorem callback_idempotent_witness:
  "timersInv (demoWorld [] [])
   \<and> wellFormed envOk (demoRequest ''abc'') ''abc'' 7
   \<and> \<not> hasCode ''facebook'' ''abc'' (fireTimers 1000 (demoWorld [] []))
   \<and> fst (deliver envOk ''facebook'' 1000 (demoRequest ''abc'') (demoWorld [] [])) = SuccessHTML ''facebook'' ''Alice''
   \<and> w_users (deliverAll envOk [(1200, ''facebook'', demoRequest ''abc'')] (awaitFlow ''facebook'' ''abc''
       (setTimeout (1000 + retention) ''facebook'' ''abc''
         (addCode ''facebook'' ''abc'' (fireTimers 1000 (demoWorld [] [])))))) = [alice]
   \<and> w_calls (deliverAll envOk [(1200, ''facebook'', demoRequest ''abc'')] (awaitFlow ''facebook'' ''abc''
       (setTimeout (1000 + retention) ''facebook'' ''abc''
         (addCode ''facebook'' ''abc'' (fireTimers 1000 (demoWorld [] [])))))) = [CompleteOAuthFlow ''facebook'' ''abc'']
   \<and> deliver envOk ''facebook'' 1500 (demoRequest ''abc'') (deliverAll envOk [(1200, ''facebook'', demoRequest ''abc'')] (awaitFlow ''facebook'' ''abc''
       (setTimeout (1000 + retention) ''facebook'' ''abc''
         (addCode ''facebook'' ''abc'' (fireTimers 1000 (demoWorld [] []))))))
      = (SuccessHTML ''facebook'' ''Already connected'', fireTimers 1500 (deliverAll envOk [(1200, ''facebook'', demoRequest ''abc'')] (awaitFlow ''facebook'' ''abc''
       (setTimeout (1000 + retention) ''facebook'' ''abc''
         (addCode ''facebook'' ''abc'' (fireTimers 1000 (demoWorld [] [])))))))
   \<and> w_users (fireTimers 1500 (deliverAll envOk [(1200, ''facebook'', demoRequest ''abc'')] (awaitFlow ''facebook'' ''abc''
       (setTimeout (1000 + retention) ''facebook'' ''abc''
         (addCode ''facebook'' ''abc'' (fireTimers 1000 (demoWorld [] []))))))) = w_users (deliverAll envOk [(1200, ''facebook'', demoRequest ''abc'')] (awaitFlow ''facebook'' ''abc''
       (setTimeout (1000 + retention) ''facebook'' ''abc''
         (addCode ''facebook'' ''abc'' (fireTimers 1000 (demoWorld [] []))))))
   \<and> w_calls (fireTimers 1500 (deliverAll envOk [(1200, ''facebook'', demoRequest ''abc'')] (awaitFlow ''facebook'' ''abc''
       (setTimeout (1000 + retention) ''facebook'' ''abc''
         (addCode ''facebook'' ''abc'' (fireTimers 1000 (demoWorld [] []))))))) = w_calls (deliverAll envOk [(1200, ''facebook'', demoRequest ''abc'')] (awaitFlow ''facebook'' ''abc''
       (setTimeout (1000 + retention) ''facebook'' ''abc''
         (addCode ''facebook'' ''abc'' (fireTimers 1000 (demoWorld [] []))))))
   \<and> fst (resumeFlow envOk ''facebook'' (demoRequest ''abc'') 7 ''abc'' (deliverAll envOk [(1200, ''facebook'', demoRequest ''abc'')] (awaitFlow ''facebook'' ''abc''
       (setTimeout (1000 + retention) ''facebook'' ''abc''
         (addCode ''facebook'' ''abc'' (fireTimers 1000 (demoWorld [] []))))))) = SuccessHTML ''facebook'' ''Alice''
   \<and> hasCode ''facebook'' ''abc'' (snd (resumeFlow envOk ''facebook'' (demoRequest ''abc'') 7 ''abc'' (deliverAll envOk [(1200, ''facebook'', demoRequest ''abc'')] (awaitFlow ''facebook'' ''abc''
       (setTimeout (1000 + retention) ''facebook'' ''abc''
         (addCode ''facebook'' ''abc'' (fireTimers 1000 (demoWorld [] []))))))))
   \<and> deliver envOk ''facebook'' 300999 (demoRequest ''abc'') (deliverAll envOk [(2000, ''instagram'', demoRequest ''abc''), (3000, ''facebook'', demoRequest ''xyz'')] (snd (resumeFlow envOk ''facebook'' (demoRequest ''abc'') 7 ''abc'' (deliverAll envOk [(1200, ''facebook'', demoRequest ''abc'')] (awaitFlow ''facebook'' ''abc''
       (setTimeout (1000 + retention) ''facebook'' ''abc''
         (addCode ''facebook'' ''abc'' (fireTimers 1000 (demoWorld [] [])))))))))
      = (SuccessHTML ''facebook'' ''Already connected'', fireTimers 300999 (deliverAll envOk [(2000, ''instagram'', demoRequest ''abc''), (3000, ''facebook'', demoRequest ''xyz'')] (snd (resumeFlow envOk ''facebook'' (demoRequest ''abc'') 7 ''abc'' (deliverAll envOk [(1200, ''facebook'', demoRequest ''abc'')] (awaitFlow ''facebook'' ''abc''
       (setTimeout (1000 + retention) ''facebook'' ''abc''
         (addCode ''facebook'' ''abc'' (fireTimers 1000 (demoWorld [] []))))))))))
   \<and> \<not> hasCode ''facebook'' ''abc'' (fireTimers 301000 (deliverAll envOk [(2000, ''instagram'', demoRequest ''abc''), (3000, ''facebook'', demoRequest ''xyz'')] (snd (resumeFlow envOk ''facebook'' (demoRequest ''abc'') 7 ''abc'' (deliverAll envOk [(1200, ''facebook'', demoRequest ''abc'')] (awaitFlow ''facebook'' ''abc''
       (setTimeout (1000 + retention) ''facebook'' ''abc''
         (addCode ''facebook'' ''abc'' (fireTimers 1000 (demoWorld [] []))))))))))"
proof -
  let ?w0 = "demoWorld [] []"
  let ?r = "demoRequest ''abc''"
  let ?armed = "setTimeout (1000 + retention) ''facebook'' ''abc'' (addCode ''facebook'' ''abc'' (fireTimers 1000 ?w0))"
  let ?early = "[(1200, ''facebook'', demoRequest ''abc'')]"
  let ?later = "[(2000, ''instagram'', demoRequest ''abc''), (3000, ''facebook'', demoRequest ''xyz'')]"
  let ?wa = "deliverAll envOk ?early (awaitFlow ''facebook'' ''abc'' ?armed)"
  have inv: "timersInv ?w0" by (simp add: timersInv_def demoWorld_def)
  have r: "wellFormed envOk ?r ''abc'' 7"
    by (simp add: wellFormed_def demoRequest_def demoState_def envOk_def truthy_def)
  have first: "\<not> hasCode ''facebook'' ''abc'' (fireTimers 1000 ?w0)"
    by (simp add: hasCode_def fireTimers_def demoWorld_def)
  have evs0: "list_all (\<lambda>ev. fst ev < 1000 + retention) ?early" by (simp add: retention_def)
  have evs: "list_all (\<lambda>ev. fst ev < 1000 + retention) ?later" by (simp add: retention_def)
  have resp: "fst (deliver envOk ''facebook'' 1000 ?r ?w0) = SuccessHTML ''facebook'' ''Alice''"
    by (simp add: callback_defs demo_defs)
  have users: "w_users ?wa = [alice]"
    by (simp add: awaitFlow_def callback_defs demo_defs)
  have calls: "w_calls ?wa = [CompleteOAuthFlow ''facebook'' ''abc'']"
    by (simp add: awaitFlow_def callback_defs demo_defs)
  have resumed: "fst (resumeFlow envOk ''facebook'' ?r 7 ''abc'' ?wa) = SuccessHTML ''facebook'' ''Alice''"
    by (simp add: awaitFlow_def resumeFlow_def callback_defs demo_defs)
  have t1: "(1500::int) < 1000 + retention" and t1': "(300999::int) < 1000 + retention"
    and t2: "1000 + retention \<le> (301000::int)"
    by (simp_all add: retention_def)
  note th = callback_idempotent [OF inv r r first refl evs0 refl refl evs refl, of 1500 301000]
  note th' = callback_idempotent [OF inv r r first refl evs0 refl refl evs refl, of 300999 301000]
  from th t1 have a: "deliver envOk ''facebook'' 1500 ?r ?wa
      = (SuccessHTML ''facebook'' ''Already connected'', fireTimers 1500 ?wa)"
    "w_users (fireTimers 1500 ?wa) = w_users ?wa" "w_calls (fireTimers 1500 ?wa) = w_calls ?wa"
    by blast+
  from th have b: "hasCode ''facebook'' ''abc'' (snd (resumeFlow envOk ''facebook'' ?r 7 ''abc'' ?wa))"
    by blast
  from th' t1' have c: "deliver envOk ''facebook'' 300999 ?r
        (deliverAll envOk ?later (snd (resumeFlow envOk ''facebook'' ?r 7 ''abc'' ?wa)))
      = (SuccessHTML ''facebook'' ''Already connected'',
         fireTimers 300999 (deliverAll envOk ?later (snd (resumeFlow envOk ''facebook'' ?r 7 ''abc'' ?wa))))"
    by blast
  from th t2 have d: "\<not> hasCode ''facebook'' ''abc''
        (fireTimers 301000 (deliverAll envOk ?later (snd (resumeFlow envOk ''facebook'' ?r 7 ''abc'' ?wa))))"
    by blast
  from inv r first resp users calls a resumed b c d show ?thesis by (intro conjI)
qed

text \<open>
  Claim C5 as it is stated fails in "account-link write performed": the exchange of the
  code throws, so the first arrival is answered with an error and the users are
  unchanged, and the second arrival of the code is still answered \<open>Already connected\<close>.
\<close>

theorem callback_write_counterexample:
  "\<not> hasCode ''facebook'' ''abc'' (fireTimers 1000 (demoWorld [] []))
   \<and> fst (deliver envFail ''facebook'' 1000 (demoRequest ''abc'') (demoWorld [] []))
       = ErrorHTML 500 ''facebook'' ''Failed to exchange code for token''
   \<and> w_users (snd (deliver envFail ''facebook'' 1000 (demoRequest ''abc'') (demoWorld [] [])))
       = w_users (demoWorld [] [])
   \<and> w_calls (snd (deliver envFail ''facebook'' 1000 (demoRequest ''abc'') (demoWorld [] [])))
       = [CompleteOAuthFlow ''facebook'' ''abc'']
   \<and> fst (deliver envFail ''facebook'' 2000 (demoRequest ''abc'')
            (snd (deliver envFail ''facebook'' 1000 (demoRequest ''abc'') (demoWorld [] []))))
       = SuccessHTML ''facebook'' ''Already connected''"
  by (simp add: callback_defs demo_defs)

section \<open>A save that throws\<close>

text \<open>
  Claim C6, as amended. When the owner is found and the save of the result (line 152)
  throws, the \<open>catch\<close> sets the status to \<open>failed\<close> and saves again. If that second save
  succeeds, the job is stored as \<open>failed\<close>, whatever the platforms answered; if it throws
  too, the stored posts are those from before the run and the promise is rejected. The
  job is not stored as \<open>published\<close> in either case.
\<close>

theorem store_failure_handling:
  assumes faults: "w_faults w = False # True # fs"
    and owner: "find (\<lambda>v. u_id v = p_user p) (w_users w) = Some u"
  shows "if (case fs of [] \<Rightarrow> False | f # _ \<Rightarrow> f)
         then run_exit (processScheduledPost e p w) = Rejected
              \<and> w_posts (run_world (processScheduledPost e p w)) = w_posts w
         else run_exit (processScheduledPost e p w) = MarkedFailed
              \<and> w_posts (run_world (processScheduledPost e p w))
                  = setStatus (p_id p) Failed (w_posts w)"
  using faults owner
  by (simp add: processScheduledPost_def User_findById_def dbCall_def publishLoop_eq Post_save_def
        catchHandler_def setStatus_def split: list.splits)

text \<open>An instance: the first save throws and the second succeeds.\<close>

theorem store_failure_handling_witness:
  "w_faults (demoWorld [job 2 7 [''instagram''] 5] [False, True]) = [False, True]
   \<and> find (\<lambda>v. u_id v = p_user (job 2 7 [''instagram''] 5))
           (w_users (demoWorld [job 2 7 [''instagram''] 5] [False, True])) = Some alice
   \<and> run_exit (processScheduledPost envOk (job 2 7 [''instagram''] 5)
         (demoWorld [job 2 7 [''instagram''] 5] [False, True])) = MarkedFailed
   \<and> w_posts (run_world (processScheduledPost envOk (job 2 7 [''instagram''] 5)
         (demoWorld [job 2 7 [''instagram''] 5] [False, True])))
       = setStatus 2 Failed [job 2 7 [''instagram''] 5]"
proof -
  let ?j = "job 2 7 [''instagram''] 5"
  let ?w = "demoWorld [?j] [False, True]"
  have faults: "w_faults ?w = False # True # []" by (simp add: demoWorld_def)
  have owner: "find (\<lambda>v. u_id v = p_user ?j) (w_users ?w) = Some alice"
    by (simp add: demo_defs)
  from store_failure_handling [OF faults owner, of envOk] faults owner
  show ?thesis by (simp add: demoWorld_def job_def)
qed

text \<open>
  Claim C6 as it is stated fails: the job was \<open>scheduled\<close>, the photo was published to
  Instagram, the save threw once, and the job is stored as \<open>failed\<close>.
\<close>

theorem store_failure_counterexample:
  "storedStatus 2 (demoWorld [job 2 7 [''instagram''] 5] [False, True]) = Some Scheduled
   \<and> map r_platform (run_results (processScheduledPost envOk (job 2 7 [''instagram''] 5)
         (demoWorld [job 2 7 [''instagram''] 5] [False, True]))) = [''instagram'']
   \<and> w_calls (run_world (processScheduledPost envOk (job 2 7 [''instagram''] 5)
         (demoWorld [job 2 7 [''instagram''] 5] [False, True])))
       = [PublishPhoto ''ig1'' ''tok'' None ''hello'']
   \<and> storedStatus 2 (run_world (processScheduledPost envOk (job 2 7 [''instagram''] 5)
         (demoWorld [job 2 7 [''instagram''] 5] [False, True]))) = Some Failed"
  by (simp add: storedStatus_def demo_defs run_defs)

section \<open>The batch of the job selector\<close>

text \<open>
  Claim C7, as amended. Every batch the query of \<open>checkScheduledPosts\<close> returns contains
  only stored jobs with status \<open>scheduled\<close> and a scheduled date at or before now, and at
  most 10 of them: it is the first 10 such jobs in the order of the collection (or the
  query throws). The query asks for no order by due time.
\<close>

theorem selector_batch:
  "(\<forall>q \<in> set (batchOf (Post_find now w)).
       q \<in> set (w_posts w) \<and> p_status q = Scheduled \<and> (\<exists>d. p_scheduledDate q = Some d \<and> d \<le> now))
   \<and> length (batchOf (Post_find now w)) \<le> 10
   \<and> (fst (Post_find now w) = Ok (take 10 (filter (isDue now) (w_posts w)))
        \<or> fst (Post_find now w) = Throw ''MongoError'')"
proof -
  have a: "\<forall>q \<in> set (batchOf (Post_find now w)).
       q \<in> set (w_posts w) \<and> p_status q = Scheduled \<and> (\<exists>d. p_scheduledDate q = Some d \<and> d \<le> now)"
  proof
    fix q assume q: "q \<in> set (batchOf (Post_find now w))"
    from batchOf_cases [of now w] q
    have "q \<in> set (take 10 (filter (isDue now) (w_posts w)))" by auto
    then show "q \<in> set (w_posts w) \<and> p_status q = Scheduled \<and> (\<exists>d. p_scheduledDate q = Some d \<and> d \<le> now)"
      by (rule due_batch_member)
  qed
  have b: "length (batchOf (Post_find now w)) \<le> 10"
    using batchOf_cases [of now w] by auto
  have c: "fst (Post_find now w) = Ok (take 10 (filter (isDue now) (w_posts w)))
        \<or> fst (Post_find now w) = Throw ''MongoError''"
    using Post_find_cases [of now w] by auto
  from a b c show ?thesis by (intro conjI)
qed

text \<open>An instance: of two jobs, the one that is due is in the batch.\<close>

theorem selector_batch_witness:
  "job 1 7 [''facebook''] 5 \<in> set (batchOf (Post_find 10 (demoWorld [job 1 7 [''facebook''] 5, job 2 7 [''facebook''] 30] [])))
   \<and> p_status (job 1 7 [''facebook''] 5) = Scheduled
   \<and> (\<exists>d. p_scheduledDate (job 1 7 [''facebook''] 5) = Some d \<and> d \<le> 10)
   \<and> length (batchOf (Post_find 10 (demoWorld [job 1 7 [''facebook''] 5, job 2 7 [''facebook''] 30] []))) \<le> 10"
proof -
  let ?w = "demoWorld [job 1 7 [''facebook''] 5, job 2 7 [''facebook''] 30] []"
  have m: "job 1 7 [''facebook''] 5 \<in> set (batchOf (Post_find 10 ?w))"
    by (simp add: demo_defs batchOf_def Post_find_def dbCall_def isDue_def)
  from selector_batch [of 10 ?w] m show ?thesis by blast
qed

text \<open>
  Claim C7 as it is stated fails in its last part: with a job due at 5 stored before a
  job due at 3, the batch at time 10 has the job due at 5 first.
\<close>

theorem selector_order_counterexample:
  "batchOf (Post_find 10 (demoWorld [job 1 7 [''facebook''] 5, job 2 7 [''facebook''] 3] []))
     = [job 1 7 [''facebook''] 5, job 2 7 [''facebook''] 3]
   \<and> \<not> sorted (map (\<lambda>q. the (p_scheduledDate q))
         (batchOf (Post_find 10 (demoWorld [job 1 7 [''facebook''] 5, job 2 7 [''facebook''] 3] []))))"
  by (simp add: demo_defs batchOf_def Post_find_def dbCall_def isDue_def)

section \<open>What is persisted of a run\<close>

text \<open>
  Claim C8, as amended. The only thing a run of \<open>processScheduledPost\<close> writes to the
  stores is the \<open>status\<close> of the job: afterwards the posts are those from before, or those
  with the status of this job set to \<open>published\<close>, or those with it set to \<open>failed\<close>, and
  the users are unchanged. The entries of \<open>results\<close> and \<open>errors\<close> (one for each platform,
  claim C3) stay in the local lists and are not stored.
\<close>

theorem only_status_persisted:
  "w_posts (run_world (processScheduledPost e p w))
     \<in> {w_posts w, setStatus (p_id p) Published (w_posts w), setStatus (p_id p) Failed (w_posts w)}
   \<and> w_users (run_world (processScheduledPost e p w)) = w_users w"
  using process_posts_cases [of e p w] process_users [of e p w] by (intro conjI)

text \<open>
  Claim C8 as it is stated fails: in one run Facebook succeeds and Instagram throws, in
  the other it is the other way round, and the stored job is the same in both, the job
  with status \<open>published\<close> and nothing about the platforms.
\<close>

theorem persisted_results_counterexample:
  "map r_platform (run_results (processScheduledPost envFacebookOnly (job 3 7 [''facebook'', ''instagram''] 5)
       (demoWorld [job 3 7 [''facebook'', ''instagram''] 5] []))) = [''facebook'']
   \<and> map e_platform (run_errors (processScheduledPost envFacebookOnly (job 3 7 [''facebook'', ''instagram''] 5)
       (demoWorld [job 3 7 [''facebook'', ''instagram''] 5] []))) = [''instagram'']
   \<and> map r_platform (run_results (processScheduledPost envInstagramOnly (job 3 7 [''facebook'', ''instagram''] 5)
       (demoWorld [job 3 7 [''facebook'', ''instagram''] 5] []))) = [''instagram'']
   \<and> map e_platform (run_errors (processScheduledPost envInstagramOnly (job 3 7 [''facebook'', ''instagram''] 5)
       (demoWorld [job 3 7 [''facebook'', ''instagram''] 5] []))) = [''facebook'']
   \<and> w_posts (run_world (processScheduledPost envFacebookOnly (job 3 7 [''facebook'', ''instagram''] 5)
       (demoWorld [job 3 7 [''facebook'', ''instagram''] 5] [])))
     = [(job 3 7 [''facebook'', ''instagram''] 5)\<lparr>p_status := Published\<rparr>]
   \<and> w_posts (run_world (processScheduledPost envInstagramOnly (job 3 7 [''facebook'', ''instagram''] 5)
       (demoWorld [job 3 7 [''facebook'', ''instagram''] 5] [])))
     = [(job 3 7 [''facebook'', ''instagram''] 5)\<lparr>p_status := Published\<rparr>]"
  by (simp add: demo_defs run_defs)

section \<open>A job whose owner is missing\<close>

text \<open>
  Claim C9, as amended. With no database error and distinct job identifiers, a stored job
  whose owner cannot be found makes \<open>processScheduledPost\<close> return at line 24 with the
  world unchanged; after any number of scheduler runs the job is still stored as it was,
  so it never gets a terminal status; once due it stays due; and it is selected again in
  every run in which fewer than 10 due jobs come before it in the collection.
\<close>

theorem missing_owner_stuck:
  assumes nofault: "w_faults w = []" and ids: "distinct (map p_id (w_posts w))"
    and q: "q \<in> set (w_posts w)"
    and missing: "find (\<lambda>v. u_id v = p_user q) (w_users w) = None"
  shows "run_exit (processScheduledPost e q w) = UserNotFound
       \<and> run_world (processScheduledPost e q w) = w
       \<and> q \<in> set (w_posts (schedulerTicks e nows w))
       \<and> (isDue now q \<longrightarrow> now \<le> now' \<longrightarrow> isDue now' q)
       \<and> (isDue now' q \<longrightarrow>
            length (filter (isDue now')
                     (takeWhile (\<lambda>x. x \<noteq> q) (w_posts (schedulerTicks e nows w)))) < 10 \<longrightarrow>
            q \<in> set (batchOf (Post_find now' (schedulerTicks e nows w))))"
proof -
  have a: "run_exit (processScheduledPost e q w) = UserNotFound"
    and b: "run_world (processScheduledPost e q w) = w"
    using nofault missing by (simp_all add: process_nofault)
  note t = stuck_ticks [OF nofault q ids missing, of e nows]
  from t have c: "q \<in> set (w_posts (schedulerTicks e nows w))" by simp
  have d: "isDue now q \<longrightarrow> now \<le> now' \<longrightarrow> isDue now' q"
    by (auto simp: isDue_def split: option.splits)
  from t have "Post_find now' (schedulerTicks e nows w)
      = (Ok (take 10 (filter (isDue now') (w_posts (schedulerTicks e nows w)))), schedulerTicks e nows w)"
    by (simp add: Post_find_def dbCall_def)
  then have batch: "batchOf (Post_find now' (schedulerTicks e nows w))
      = take 10 (filter (isDue now') (w_posts (schedulerTicks e nows w)))"
    by (simp add: batchOf_def)
  have f: "isDue now' q \<longrightarrow>
            length (filter (isDue now')
                     (takeWhile (\<lambda>x. x \<noteq> q) (w_posts (schedulerTicks e nows w)))) < 10 \<longrightarrow>
            q \<in> set (batchOf (Post_find now' (schedulerTicks e nows w)))"
    unfolding batch using within_limit [OF c, of "isDue now'" 10] by blast
  from a b c d f show ?thesis by (intro conjI)
qed

text \<open>
  An instance: after two runs the job of the known owner is \<open>published\<close>, the job of the
  missing owner is stored unchanged and is in the batch of the third run.
\<close>

theorem missing_owner_stuck_witness:
  "w_faults (demoWorld [job 1 7 [''facebook''] 5, job 9 8 [''facebook''] 5] []) = []
   \<and> distinct (map p_id (w_posts (demoWorld [job 1 7 [''facebook''] 5, job 9 8 [''facebook''] 5] [])))
   \<and> find (\<lambda>v. u_id v = p_user (job 9 8 [''facebook''] 5))
        (w_users (demoWorld [job 1 7 [''facebook''] 5, job 9 8 [''facebook''] 5] [])) = None
   \<and> isDue 10 (job 9 8 [''facebook''] 5)
   \<and> storedStatus 1 (schedulerTicks envOk [10, 60010]
        (demoWorld [job 1 7 [''facebook''] 5, job 9 8 [''facebook''] 5] [])) = Some Published
   \<and> job 9 8 [''facebook''] 5 \<in> set (w_posts (schedulerTicks envOk [10, 60010]
        (demoWorld [job 1 7 [''facebook''] 5, job 9 8 [''facebook''] 5] [])))
   \<and> job 9 8 [''facebook''] 5 \<in> set (batchOf (Post_find 120010 (schedulerTicks envOk [10, 60010]
        (demoWorld [job 1 7 [''facebook''] 5, job 9 8 [''facebook''] 5] []))))"
proof -
  let ?q = "job 9 8 [''facebook''] 5"
  let ?w = "demoWorld [job 1 7 [''facebook''] 5, ?q] []"
  have nofault: "w_faults ?w = []" by (simp add: demoWorld_def)
  have ids: "distinct (map p_id (w_posts ?w))" by (simp add: demoWorld_def job_def)
  have q: "?q \<in> set (w_posts ?w)" by (simp add: demoWorld_def)
  have missing: "find (\<lambda>v. u_id v = p_user ?q) (w_users ?w) = None" by (simp add: demo_defs)
  have due: "isDue 10 ?q" "isDue 120010 ?q" by (simp_all add: isDue_def job_def)
  have ticks: "w_posts (schedulerTicks envOk [10, 60010] ?w)
      = [(job 1 7 [''facebook''] 5)\<lparr>p_status := Published\<rparr>, ?q]"
    by (simp add: checkScheduledPosts_def Post_find_def isDue_def demo_defs run_defs)
  have few: "length (filter (isDue 120010)
                (takeWhile (\<lambda>x. x \<noteq> ?q) (w_posts (schedulerTicks envOk [10, 60010] ?w)))) < 10"
    unfolding ticks by (simp add: job_def isDue_def)
  have st: "storedStatus 1 (schedulerTicks envOk [10, 60010] ?w) = Some Published"
    unfolding storedStatus_def ticks by (simp add: job_def)
  from missing_owner_stuck [OF nofault ids q missing, of envOk "[10, 60010]" 10 120010] due few
    nofault ids missing st
  show ?thesis by simp
qed

text \<open>
  Claim C9 as it is stated fails in "selected again on every subsequent tick": the job of
  the missing owner is selected at time 50 and left unchanged; at time 100 ten other jobs
  that come before it in the collection are due, the batch is those ten, and the job is
  not selected. It also fails in "never reaches a terminal status" when a later lookup
  of the owner throws: the run at 50 leaves the job, the run at 60050 stores it as
  \<open>failed\<close>.
\<close>

theorem missing_owner_counterexample:
  "find (\<lambda>v. u_id v = 8) (w_users (demoWorld
       (map (\<lambda>i. job i 8 [''facebook''] 100) [1, 2, 3, 4, 5, 6, 7, 8, 9, 10] @ [job 11 8 [''facebook''] 0]) [])) = None
   \<and> batchOf (Post_find 50 (demoWorld
       (map (\<lambda>i. job i 8 [''facebook''] 100) [1, 2, 3, 4, 5, 6, 7, 8, 9, 10] @ [job 11 8 [''facebook''] 0]) []))
     = [job 11 8 [''facebook''] 0]
   \<and> checkScheduledPosts envOk 50 (demoWorld
       (map (\<lambda>i. job i 8 [''facebook''] 100) [1, 2, 3, 4, 5, 6, 7, 8, 9, 10] @ [job 11 8 [''facebook''] 0]) [])
     = demoWorld
       (map (\<lambda>i. job i 8 [''facebook''] 100) [1, 2, 3, 4, 5, 6, 7, 8, 9, 10] @ [job 11 8 [''facebook''] 0]) []
   \<and> job 11 8 [''facebook''] 0 \<notin> set (batchOf (Post_find 100 (checkScheduledPosts envOk 50 (demoWorld
       (map (\<lambda>i. job i 8 [''facebook''] 100) [1, 2, 3, 4, 5, 6, 7, 8, 9, 10] @ [job 11 8 [''facebook''] 0]) []))))
   \<and> storedStatus 11 (schedulerTicks envOk [50, 60050]
         (demoWorld [job 11 8 [''facebook''] 0] [False, False, False, True])) = Some Failed"
proof -
  let ?w = "demoWorld
       (map (\<lambda>i. job i 8 [''facebook''] 100) [1, 2, 3, 4, 5, 6, 7, 8, 9, 10] @ [job 11 8 [''facebook''] 0]) []"
  have a: "find (\<lambda>v. u_id v = 8) (w_users ?w) = None" by (simp add: demo_defs)
  have b: "batchOf (Post_find 50 ?w) = [job 11 8 [''facebook''] 0]"
    by (simp add: batchOf_def Post_find_def dbCall_def isDue_def demoWorld_def job_def)
  have pf: "Post_find 50 ?w = (Ok [job 11 8 [''facebook''] 0], ?w)"
    by (simp add: Post_find_def dbCall_def isDue_def demoWorld_def job_def)
  have f: "w_faults ?w = []" by (simp add: demoWorld_def)
  have pu: "p_user (job 11 8 [''facebook''] 0) = 8" by (simp add: job_def)
  have r: "processScheduledPost envOk (job 11 8 [''facebook''] 0) ?w
      = \<lparr>run_world = ?w, run_results = [], run_errors = [], run_exit = UserNotFound\<rparr>"
    unfolding process_nofault [OF f] pu a by simp
  have c: "checkScheduledPosts envOk 50 ?w = ?w"
    unfolding checkScheduledPosts_def pf prod.case res.case processEach.simps Let_def r by simp
  have d: "job 11 8 [''facebook''] 0 \<notin> set (batchOf (Post_find 100 ?w))"
    by (simp add: batchOf_def Post_find_def dbCall_def isDue_def demoWorld_def job_def)
  have e: "storedStatus 11 (schedulerTicks envOk [50, 60050]
         (demoWorld [job 11 8 [''facebook''] 0] [False, False, False, True])) = Some Failed"
    by (simp add: storedStatus_def checkScheduledPosts_def Post_find_def isDue_def demo_defs run_defs)
  from a b c d e show ?thesis by (simp only: simp_thms)
qed

section \<open>One connected account for each platform\<close>

text \<open>
  Claim C10. After \<open>saveAccountToStorage\<close> has saved, the user exists and the list
  \<open>connectedAccounts\<close> of every stored user of that identifier has at most one entry for
  the platform: the entries of the platform were filtered out before the new one was
  pushed, so the entries of the platform are the new one alone (when the account data
  name that platform). For a platform of the schema's enumeration this also holds when
  platform names are compared in lower case, as the scheduler compares them.
\<close>

theorem one_account_per_platform:
  assumes saved: "saveAccountToStorage e userId platform ad firebaseUid w = (Ok (), w')"
  shows "(\<exists>v \<in> set (w_users w'). u_id v = userId)
       \<and> (\<forall>v \<in> set (w_users w'). u_id v = userId \<longrightarrow>
            filter (\<lambda>a. acc_platform a = platform) (u_connectedAccounts v)
              = (if ad_platform ad = platform then [newAccount ad] else [])
            \<and> length (filter (\<lambda>a. acc_platform a = platform) (u_connectedAccounts v)) \<le> 1
            \<and> (platform \<in> set platformEnum \<longrightarrow>
                 length (filter (\<lambda>a. toLowerCase (acc_platform a) = toLowerCase platform)
                           (u_connectedAccounts v)) \<le> 1))"
proof -
  from saveAccount_Ok [OF saved] obtain u where u: "find (\<lambda>v. u_id v = userId) (w_users w) = Some u"
    and valid: "list_all validAccount
                  (filter (\<lambda>acc. acc_platform acc \<noteq> platform) (u_connectedAccounts u) @ [newAccount ad])"
    and users: "w_users w' = map (\<lambda>v. if u_id v = userId
            then v\<lparr>u_connectedAccounts :=
                    filter (\<lambda>acc. acc_platform acc \<noteq> platform) (u_connectedAccounts u) @ [newAccount ad]\<rparr>
            else v) (w_users w)"
    by blast
  let ?accs = "filter (\<lambda>acc. acc_platform acc \<noteq> platform) (u_connectedAccounts u) @ [newAccount ad]"
  have f: "filter (\<lambda>a. acc_platform a = platform) ?accs
             = (if ad_platform ad = platform then [newAccount ad] else [])"
    by (simp add: newAccount_def)
  then have l: "length (filter (\<lambda>a. acc_platform a = platform) ?accs) \<le> 1" by simp
  have each: "u_connectedAccounts v = ?accs" if "v \<in> set (w_users w')" "u_id v = userId" for v
  proof -
    from that(1) obtain x where "x \<in> set (w_users w)"
      and "v = (if u_id x = userId then x\<lparr>u_connectedAccounts := ?accs\<rparr> else x)"
      unfolding users by (auto simp del: filter_append)
    with that(2) show ?thesis by (cases "u_id x = userId") simp_all
  qed
  from find_id [OF u] have "u\<lparr>u_connectedAccounts := ?accs\<rparr> \<in> set (w_users w')"
    unfolding users by (force simp del: filter_append)
  moreover from find_id [OF u] have "u_id (u\<lparr>u_connectedAccounts := ?accs\<rparr>) = userId" by simp
  ultimately have ex: "\<exists>v \<in> set (w_users w'). u_id v = userId" by blast
  have lower: "length (filter (\<lambda>a. toLowerCase (acc_platform a) = toLowerCase platform) ?accs) \<le> 1"
    if "platform \<in> set platformEnum"
    by (simp only: valid_filter_lower [OF valid that] l)
  have all: "\<forall>v \<in> set (w_users w'). u_id v = userId \<longrightarrow>
            filter (\<lambda>a. acc_platform a = platform) (u_connectedAccounts v)
              = (if ad_platform ad = platform then [newAccount ad] else [])
            \<and> length (filter (\<lambda>a. acc_platform a = platform) (u_connectedAccounts v)) \<le> 1
            \<and> (platform \<in> set platformEnum \<longrightarrow>
                 length (filter (\<lambda>a. toLowerCase (acc_platform a) = toLowerCase platform)
                           (u_connectedAccounts v)) \<le> 1)"
  proof (intro ballI impI conjI)
    fix v assume v: "v \<in> set (w_users w')" "u_id v = userId"
    note a = each [OF v]
    show "filter (\<lambda>a. acc_platform a = platform) (u_connectedAccounts v)
              = (if ad_platform ad = platform then [newAccount ad] else [])"
      unfolding a by (rule f)
    show "length (filter (\<lambda>a. acc_platform a = platform) (u_connectedAccounts v)) \<le> 1"
      unfolding a by (rule l)
    assume "platform \<in> set platformEnum"
    then show "length (filter (\<lambda>a. toLowerCase (acc_platform a) = toLowerCase platform)
                           (u_connectedAccounts v)) \<le> 1"
      unfolding a by (rule lower)
  qed
  from ex all show ?thesis by (intro conjI)
qed

text \<open>
  An instance: the user had a Facebook and an Instagram account; after a new Facebook
  account is saved, the list is Instagram, Facebook, with the new account as the only
  Facebook entry.
\<close>

theorem one_account_per_platform_witness:
  "saveAccountToStorage envOk 7 ''facebook'' (demoData ''facebook'') None (demoWorld [] [])
     = (Ok (), snd (saveAccountToStorage envOk 7 ''facebook'' (demoData ''facebook'') None (demoWorld [] [])))
   \<and> map u_id (w_users (snd (saveAccountToStorage envOk 7 ''facebook'' (demoData ''facebook'') None
                              (demoWorld [] [])))) = [7]
   \<and> map (\<lambda>v. map acc_platform (u_connectedAccounts v))
          (w_users (snd (saveAccountToStorage envOk 7 ''facebook'' (demoData ''facebook'') None
                              (demoWorld [] [])))) = [[''instagram'', ''facebook'']]
   \<and> map (\<lambda>v. filter (\<lambda>a. acc_platform a = ''facebook'') (u_connectedAccounts v))
          (w_users (snd (saveAccountToStorage envOk 7 ''facebook'' (demoData ''facebook'') None
                              (demoWorld [] [])))) = [[newAccount (demoData ''facebook'')]]"
proof -
  let ?r = "saveAccountToStorage envOk 7 ''facebook'' (demoData ''facebook'') None (demoWorld [] [])"
  have ev: "?r = (Ok (), (demoWorld [] [])\<lparr>w_users := [alice\<lparr>u_connectedAccounts :=
                 [demoAccount ''instagram'', newAccount (demoData ''facebook'')]\<rparr>]\<rparr>)"
    by (simp add: saveAccountToStorage_def User_findById_def User_save_def dbCall_def validAccount_def
          platformEnum_def newAccount_def orEmpty_def truthy_def demo_defs)
  then have saved: "?r = (Ok (), snd ?r)" by simp
  have users: "w_users (snd ?r) = [alice\<lparr>u_connectedAccounts :=
                 [demoAccount ''instagram'', newAccount (demoData ''facebook'')]\<rparr>]"
    unfolding ev by simp
  have ids: "map u_id (w_users (snd ?r)) = [7]" unfolding users by (simp add: alice_def)
  have pl: "map (\<lambda>v. map acc_platform (u_connectedAccounts v)) (w_users (snd ?r)) = [[''instagram'', ''facebook'']]"
    unfolding users by (simp add: demoAccount_def newAccount_def demoData_def)
  have mem: "alice\<lparr>u_connectedAccounts := [demoAccount ''instagram'', newAccount (demoData ''facebook'')]\<rparr>
       \<in> set (w_users (snd ?r))" unfolding users by simp
  have adp: "ad_platform (demoData ''facebook'') = ''facebook''" by (simp add: demoData_def)
  have uid: "u_id (alice\<lparr>u_connectedAccounts := [demoAccount ''instagram'', newAccount (demoData ''facebook'')]\<rparr>) = 7"
    by (simp add: alice_def)
  note th = one_account_per_platform [OF saved, THEN conjunct2, THEN bspec, OF mem, THEN mp, OF uid,
              THEN conjunct1]
  from th have "filter (\<lambda>a. acc_platform a = ''facebook'')
          (u_connectedAccounts (alice\<lparr>u_connectedAccounts := [demoAccount ''instagram'', newAccount (demoData ''facebook'')]\<rparr>))
        = [newAccount (demoData ''facebook'')]"
    by (simp add: adp)
  then have fl: "map (\<lambda>v. filter (\<lambda>a. acc_platform a = ''facebook'') (u_connectedAccounts v)) (w_users (snd ?r))
      = [[newAccount (demoData ''facebook'')]]"
    unfolding users by simp
  from saved ids pl fl show ?thesis by (intro conjI)
qed

end
